theory Spec2Isabelle
  imports Main "HOL-Library.Word"
begin

unbundle bit_operations_syntax

section \<open>Buffered logger: data model\<close>

text \<open>
  A shallow embedding of \<^verbatim>\<open>buffered_logger.h\<close> and \<^verbatim>\<open>buffered_logger.cpp\<close>
  (namespace \<^verbatim>\<open>DisplayDriver\<close>). Every member function becomes a function on an explicit
  logger state. What the C++ leaves to the platform is collected in a record of parameters:
  the resolution of \<^verbatim>\<open>std::chrono::steady_clock\<close>, the signedness of \<^verbatim>\<open>char\<close>,
  \<^verbatim>\<open>sizeof(LogEntry)\<close>, \<^verbatim>\<open>std::string::capacity\<close> and the local-time rendering of
  \<^verbatim>\<open>std::put_time\<close>.

  \<^item> \<^verbatim>\<open>uint32_t\<close> is \<open>32 word\<close>, \<^verbatim>\<open>size_t\<close> counters are \<open>64 word\<close> (LP64), so that
    \<^verbatim>\<open>fetch_add\<close> and \<^verbatim>\<open>count++\<close> wrap as they do in the program.
  \<^item> A \<^verbatim>\<open>steady_clock::time_point\<close> is its tick count, an \<open>int\<close>; a
    \<^verbatim>\<open>std::chrono::milliseconds\<close> value is an \<open>int\<close> as well (the representation is signed).
  \<^item> Reading \<^verbatim>\<open>m_dedupeWindow[i]\<close> outside the vector is undefined behaviour in C++; the
    model returns the error \<open>OutOfBounds\<close> there.
  \<^item> Every member function is one atomic step on the state: the model covers sequences of calls
    (with the drainer thread's wake-ups as calls of their own), not the interleavings inside a call.
\<close>

type_synonym uint32_t = "32 word"
type_synonym size_t = "64 word"
type_synonym time_point = int
type_synonym milliseconds = int

record platform =
  ticks_per_ms :: int
  char_is_signed :: bool
  sizeof_LogEntry :: nat
  string_capacity :: "string \<Rightarrow> nat"
  put_time_local :: "time_point \<Rightarrow> string"

datatype LogLevel = TRACE | DEBUG | INFO | WARNING | ERROR | CRITICAL

text \<open>\<^verbatim>\<open>static_cast<int>(level)\<close>: the enumerators' values 0..5.\<close>

fun level_value :: "LogLevel \<Rightarrow> nat" where
  "level_value TRACE = 0"
| "level_value DEBUG = 1"
| "level_value INFO = 2"
| "level_value WARNING = 3"
| "level_value ERROR = 4"
| "level_value CRITICAL = 5"

record LogEntry =
  timestamp :: time_point
  level :: LogLevel
  message :: string
  threadId :: nat
  hash :: uint32_t
  count :: size_t

text \<open>
  The constructor \<^verbatim>\<open>LogEntry(lvl, msg, h)\<close>: the timestamp is the clock reading \<open>ts\<close>,
  the thread id that of the caller, and \<^verbatim>\<open>count(1)\<close>.
\<close>

definition LogEntry_new :: "time_point \<Rightarrow> nat \<Rightarrow> LogLevel \<Rightarrow> string \<Rightarrow> uint32_t \<Rightarrow> LogEntry" where
  "LogEntry_new ts tid lvl msg h =
     \<lparr>timestamp = ts, level = lvl, message = msg, threadId = tid, hash = h, count = 1\<rparr>"

record Config =
  bufferSize :: nat
  maxMemoryBytes :: nat
  flushInterval :: milliseconds
  enableDeduplication :: bool
  deduplicationWindowSize :: nat
  deduplicationTimeWindow :: milliseconds
  minimumLevel :: LogLevel
  outputFile :: string
  consoleOutput :: bool
  asyncFlush :: bool

text \<open>The default member initialisers of \<^verbatim>\<open>BufferedLogger::Config\<close>.\<close>

definition Config_default :: Config where
  "Config_default =
     \<lparr>bufferSize = 10000, maxMemoryBytes = 50 * 1024 * 1024, flushInterval = 1000,
      enableDeduplication = True, deduplicationWindowSize = 1000,
      deduplicationTimeWindow = 5000, minimumLevel = DEBUG, outputFile = ''driver.log'',
      consoleOutput = False, asyncFlush = True\<rparr>"

record Stats =
  totalLogged :: size_t
  totalFlushed :: size_t
  totalDeduplicated :: size_t
  currentBufferSize :: size_t
  totalFlushes :: size_t
  lastFlushTime :: time_point

text \<open>\<^verbatim>\<open>DedupeInfo\<close>; its field \<^verbatim>\<open>count\<close> is \<open>seen\<close> here (\<open>count\<close> is \<^verbatim>\<open>LogEntry::count\<close>).\<close>

record DedupeInfo =
  lastSeen :: time_point
  seen :: size_t

text \<open>
  The members of \<^verbatim>\<open>BufferedLogger\<close>. \<open>m_flushThread\<close> says whether the drainer thread is
  running, \<open>m_fileStream\<close> whether the file stream is open, \<open>m_flushCallback\<close> whether a
  callback is set. The three sinks are the lists of what they have received so far:
  the lines written to the file, the lines written to standard output, and the batches handed
  to the callback. \<open>drained\<close> is a history as well, not a member of the class: the records
  that \<^verbatim>\<open>performFlush\<close> has moved out of the buffers so far, in order (the successive
  contents of its local \<^verbatim>\<open>bufferToFlush\<close>). No function reads it.
\<close>

record BufferedLogger =
  m_config :: Config
  m_primaryBuffer :: "LogEntry list"
  m_secondaryBuffer :: "LogEntry list"
  m_useSecondaryBuffer :: bool
  m_dedupeMap :: "uint32_t \<rightharpoonup> DedupeInfo"
  m_dedupeWindow :: "uint32_t list"
  m_dedupeWindowIndex :: nat
  m_flushThread :: bool
  m_shutdown :: bool
  m_forceFlushRequested :: bool
  m_fileStream :: bool
  m_flushCallback :: bool
  m_stats :: Stats
  file_sink :: "string list"
  console_sink :: "string list"
  callback_sink :: "LogEntry list list"
  drained :: "LogEntry list"

datatype error = OutOfBounds

text \<open>The clock readings and the thread of one call: \<open>t_now\<close> is read in \<^verbatim>\<open>log\<close>,
  \<open>t_entry\<close> in the \<^verbatim>\<open>LogEntry\<close> constructor, \<open>t_flush\<close> at the end of
  \<^verbatim>\<open>performFlush\<close>.\<close>

record caller =
  this_thread :: nat
  t_now :: time_point
  t_entry :: time_point
  t_flush :: time_point

section \<open>Construction\<close>

text \<open>
  The constructor. \<open>file_opens\<close> says whether opening the output file succeeds. The ring is
  sized only when deduplication is enabled in the configuration.
\<close>

definition BufferedLogger_init :: "Config \<Rightarrow> bool \<Rightarrow> BufferedLogger" where
  "BufferedLogger_init config file_opens =
     \<lparr>m_config = config,
      m_primaryBuffer = [],
      m_secondaryBuffer = [],
      m_useSecondaryBuffer = False,
      m_dedupeMap = Map.empty,
      m_dedupeWindow =
        (if enableDeduplication config then replicate (deduplicationWindowSize config) 0 else []),
      m_dedupeWindowIndex = 0,
      m_flushThread = asyncFlush config,
      m_shutdown = False,
      m_forceFlushRequested = False,
      m_fileStream = (outputFile config \<noteq> [] \<and> file_opens),
      m_flushCallback = False,
      m_stats = \<lparr>totalLogged = 0, totalFlushed = 0, totalDeduplicated = 0,
                 currentBufferSize = 0, totalFlushes = 0, lastFlushTime = 0\<rparr>,
      file_sink = [],
      console_sink = [],
      callback_sink = [],
      drained = []\<rparr>"

section \<open>Fingerprint\<close>

text \<open>\<^verbatim>\<open>static_cast<uint32_t>(c)\<close> for a \<^verbatim>\<open>char\<close>: sign-extended where \<^verbatim>\<open>char\<close> is signed.\<close>

definition char_to_uint32 :: "platform \<Rightarrow> char \<Rightarrow> uint32_t" where
  "char_to_uint32 pf c =
     (if char_is_signed pf then scast (of_char c :: 8 word) else ucast (of_char c :: 8 word))"

text \<open>The loop \<^verbatim>\<open>for (char c : message) { hash ^= c; hash *= 16777619u; }\<close>.\<close>

fun hash_message :: "platform \<Rightarrow> uint32_t \<Rightarrow> string \<Rightarrow> uint32_t" where
  "hash_message pf h [] = h"
| "hash_message pf h (c # cs) = hash_message pf ((h XOR char_to_uint32 pf c) * 16777619) cs"

definition computeHash :: "platform \<Rightarrow> string \<Rightarrow> LogLevel \<Rightarrow> uint32_t" where
  "computeHash pf msg lvl =
     hash_message pf ((2166136261 XOR of_nat (level_value lvl)) * 16777619) msg"

section \<open>Deduplication cache\<close>

text \<open>\<^verbatim>\<open>duration_cast<milliseconds>\<close> of a tick difference: integer division that truncates
  towards zero.\<close>

definition duration_cast_ms :: "platform \<Rightarrow> int \<Rightarrow> milliseconds" where
  "duration_cast_ms pf d =
     (if 0 \<le> d then d div ticks_per_ms pf else - ((- d) div ticks_per_ms pf))"

text \<open>
  The tail of \<^verbatim>\<open>shouldDeduplicate\<close> that runs when the probe does not suppress ("Add to
  deduplication tracking", "Maintain circular buffer of recent hashes"): the map entry is
  written, the ring slot at the cursor is inspected and the entry of the hash it holds erased
  when its age is not below the window, the slot is overwritten and the cursor advanced.
  Indexing the ring at a cursor outside it is \<open>Inl OutOfBounds\<close>.
\<close>

definition track_hash ::
  "platform \<Rightarrow> uint32_t \<Rightarrow> time_point \<Rightarrow> BufferedLogger \<Rightarrow> error + (bool \<times> BufferedLogger)" where
  "track_hash pf h now s =
     (let map1 = (m_dedupeMap s)(h \<mapsto> \<lparr>lastSeen = now, seen = 1\<rparr>);
          i = m_dedupeWindowIndex s
      in if length (m_dedupeWindow s) \<le> i then Inl OutOfBounds
         else
           let oldHash = m_dedupeWindow s ! i;
               map2 =
                 (if oldHash \<noteq> 0 then
                    (case map1 oldHash of
                       None \<Rightarrow> map1
                     | Some oldIt \<Rightarrow>
                         if deduplicationTimeWindow (m_config s)
                              \<le> duration_cast_ms pf (now - lastSeen oldIt)
                         then map1(oldHash := None) else map1)
                  else map1)
           in Inr (False,
                s\<lparr>m_dedupeMap := map2,
                  m_dedupeWindow := (m_dedupeWindow s)[i := h],
                  m_dedupeWindowIndex := (i + 1) mod length (m_dedupeWindow s)\<rparr>))"

text \<open>
  \<^verbatim>\<open>shouldDeduplicate\<close>. The result is \<open>Inr (True, s')\<close> for "deduplicate" and
  \<open>Inr (False, s')\<close> for "do not deduplicate".
\<close>

definition shouldDeduplicate ::
  "platform \<Rightarrow> uint32_t \<Rightarrow> time_point \<Rightarrow> BufferedLogger \<Rightarrow> error + (bool \<times> BufferedLogger)" where
  "shouldDeduplicate pf h now s =
     (case m_dedupeMap s h of
        Some it \<Rightarrow>
          if duration_cast_ms pf (now - lastSeen it) < deduplicationTimeWindow (m_config s)
          then Inr (True,
                 s\<lparr>m_dedupeMap := (m_dedupeMap s)(h \<mapsto> \<lparr>lastSeen = now, seen = seen it + 1\<rparr>)\<rparr>)
          else track_hash pf h now s
      | None \<Rightarrow> track_hash pf h now s)"

section \<open>Formatting\<close>

text \<open>Decimal and lower-case hexadecimal digits of an unsigned number, as a stream prints them.\<close>

definition digit_char :: "nat \<Rightarrow> char" where
  "digit_char d = ''0123456789abcdef'' ! d"

function show_dec :: "nat \<Rightarrow> string" where
  "show_dec n = (if n < 10 then [digit_char n] else show_dec (n div 10) @ [digit_char (n mod 10)])"
  by pat_completeness auto
termination
  by (relation "measure id") auto

function show_hex :: "nat \<Rightarrow> string" where
  "show_hex n = (if n < 16 then [digit_char n] else show_hex (n div 16) @ [digit_char (n mod 16)])"
  by pat_completeness auto
termination
  by (relation "measure id") auto

text \<open>
  The part of a \<^verbatim>\<open>std::stringstream\<close> that \<^verbatim>\<open>formatLogEntry\<close> uses: the text so far, the
  \<^verbatim>\<open>std::hex\<close>/\<^verbatim>\<open>std::dec\<close> flag, the fill character and the field width, which every
  formatted output resets to 0. Padding goes to the left (the default adjustment).
\<close>

record ostream =
  buf :: string
  flag_hex :: bool
  fill_char :: char
  field_width :: nat

definition ostream_init :: ostream where
  "ostream_init = \<lparr>buf = [], flag_hex = False, fill_char = CHR '' '', field_width = 0\<rparr>"

definition put_padded :: "string \<Rightarrow> ostream \<Rightarrow> ostream" where
  "put_padded txt ss =
     ss\<lparr>buf := buf ss @ replicate (field_width ss - length txt) (fill_char ss) @ txt,
        field_width := 0\<rparr>"

definition put_string :: "string \<Rightarrow> ostream \<Rightarrow> ostream" where
  "put_string txt ss = put_padded txt ss"

definition put_unsigned :: "nat \<Rightarrow> ostream \<Rightarrow> ostream" where
  "put_unsigned n ss = put_padded (if flag_hex ss then show_hex n else show_dec n) ss"

text \<open>A signed 64-bit value: in hexadecimal its two's complement is printed.\<close>

definition put_signed :: "int \<Rightarrow> ostream \<Rightarrow> ostream" where
  "put_signed i ss =
     put_padded
       (if flag_hex ss then show_hex (nat (i mod 2 ^ 64))
        else if i < 0 then CHR ''-'' # show_dec (nat (- i)) else show_dec (nat i)) ss"

definition setfill :: "char \<Rightarrow> ostream \<Rightarrow> ostream" where
  "setfill c ss = ss\<lparr>fill_char := c\<rparr>"

definition setw :: "nat \<Rightarrow> ostream \<Rightarrow> ostream" where
  "setw n ss = ss\<lparr>field_width := n\<rparr>"

definition set_hex :: "bool \<Rightarrow> ostream \<Rightarrow> ostream" where
  "set_hex b ss = ss\<lparr>flag_hex := b\<rparr>"

text \<open>The remainder of C++ integer division, which has the sign of the dividend.\<close>

definition trunc_rem :: "int \<Rightarrow> int \<Rightarrow> int" where
  "trunc_rem a b = (if 0 \<le> a then a mod \<bar>b\<bar> else - ((- a) mod \<bar>b\<bar>))"

definition levelStrings :: "string list" where
  "levelStrings = [''TRACE'', ''DEBUG'', ''INFO '', ''WARN '', ''ERROR'', ''CRIT '']"

text \<open>
  \<^verbatim>\<open>formatLogEntry\<close>, one stream operation after the other. The wall-clock text that
  \<^verbatim>\<open>std::put_time\<close> renders for the record's timestamp is the platform's
  \<open>put_time_local\<close>; a \<^verbatim>\<open>std::thread::id\<close> is printed as its native handle, an unsigned
  number.
\<close>

definition formatLogEntry :: "platform \<Rightarrow> LogEntry \<Rightarrow> string" where
  "formatLogEntry pf entry =
     (let ss = ostream_init;
          ss = put_string ''['' ss;
          ss = put_string (put_time_local pf (timestamp entry)) ss;
          ms = trunc_rem (duration_cast_ms pf (timestamp entry)) 1000;
          ss = put_string ''.'' ss;
          ss = setfill CHR ''0'' ss;
          ss = setw 3 ss;
          ss = put_signed ms ss;
          ss = put_string ''] '' ss;
          ss = put_string ''['' ss;
          ss = put_string (levelStrings ! level_value (level entry)) ss;
          ss = put_string ''] '' ss;
          ss = put_string ''[T:'' ss;
          ss = set_hex True ss;
          ss = put_unsigned (threadId entry) ss;
          ss = set_hex False ss;
          ss = put_string ''] '' ss;
          ss = put_string (message entry) ss;
          ss = (if 1 < count entry
                then put_string '' times)''
                       (put_unsigned (unat (count entry)) (put_string '' (repeated '' ss))
                else ss)
      in buf ss)"

section \<open>Buffers and the drain routine\<close>

definition currentBuffer :: "BufferedLogger \<Rightarrow> LogEntry list" where
  "currentBuffer s = (if m_useSecondaryBuffer s then m_secondaryBuffer s else m_primaryBuffer s)"

definition set_currentBuffer :: "LogEntry list \<Rightarrow> BufferedLogger \<Rightarrow> BufferedLogger" where
  "set_currentBuffer b s =
     (if m_useSecondaryBuffer s then s\<lparr>m_secondaryBuffer := b\<rparr> else s\<lparr>m_primaryBuffer := b\<rparr>)"

text \<open>The loop of \<^verbatim>\<open>estimateMemoryUsage\<close> over the active buffer.\<close>

fun usage_loop :: "platform \<Rightarrow> nat \<Rightarrow> LogEntry list \<Rightarrow> nat" where
  "usage_loop pf usage [] = usage"
| "usage_loop pf usage (entry # rest) =
     usage_loop pf (usage + (sizeof_LogEntry pf + string_capacity pf (message entry))) rest"

definition estimateMemoryUsage :: "platform \<Rightarrow> BufferedLogger \<Rightarrow> nat" where
  "estimateMemoryUsage pf s = usage_loop pf 0 (currentBuffer s)"

text \<open>The loop of \<^verbatim>\<open>performFlush\<close> that writes each formatted record to the file stream, if
  it is open, and to standard output, if the console is enabled.\<close>

fun write_entries :: "platform \<Rightarrow> LogEntry list \<Rightarrow> BufferedLogger \<Rightarrow> BufferedLogger" where
  "write_entries pf [] s = s"
| "write_entries pf (entry # rest) s =
     (let formatted = formatLogEntry pf entry;
          s1 = (if m_fileStream s then s\<lparr>file_sink := file_sink s @ [formatted]\<rparr> else s);
          s2 = (if consoleOutput (m_config s1)
                then s1\<lparr>console_sink := console_sink s1 @ [formatted]\<rparr> else s1)
      in write_entries pf rest s2)"

text \<open>\<^verbatim>\<open>performFlush\<close>; \<open>t\<close> is the clock reading stored in \<^verbatim>\<open>lastFlushTime\<close>. The
  batch swapped out of the active buffer is appended to the history \<open>drained\<close>.\<close>

definition performFlush :: "platform \<Rightarrow> time_point \<Rightarrow> BufferedLogger \<Rightarrow> BufferedLogger" where
  "performFlush pf t s =
     (if currentBuffer s = [] then s
      else
        let bufferToFlush = currentBuffer s;
            s1 = set_currentBuffer [] s;
            s2 = s1\<lparr>m_useSecondaryBuffer := \<not> m_useSecondaryBuffer s1\<rparr>;
            s3 = s2\<lparr>m_stats := (m_stats s2)\<lparr>currentBufferSize := 0\<rparr>,
                   drained := drained s2 @ bufferToFlush\<rparr>;
            s4 = write_entries pf bufferToFlush s3;
            s5 = (if m_flushCallback s4
                  then s4\<lparr>callback_sink := callback_sink s4 @ [bufferToFlush]\<rparr> else s4);
            s6 = s5\<lparr>m_stats := (m_stats s5)
                   \<lparr>totalFlushed := totalFlushed (m_stats s5) + of_nat (length bufferToFlush),
                    totalFlushes := totalFlushes (m_stats s5) + 1,
                    lastFlushTime := t\<rparr>\<rparr>
        in s6\<lparr>m_forceFlushRequested := False\<rparr>)"

definition forceFlush :: "platform \<Rightarrow> time_point \<Rightarrow> BufferedLogger \<Rightarrow> BufferedLogger" where
  "forceFlush pf t s = performFlush pf t s"

definition flush :: "platform \<Rightarrow> time_point \<Rightarrow> BufferedLogger \<Rightarrow> BufferedLogger" where
  "flush pf t s =
     (if asyncFlush (m_config s) then s\<lparr>m_forceFlushRequested := True\<rparr>
      else performFlush pf t s)"

text \<open>One round of the loop of \<^verbatim>\<open>flushWorker\<close>, from the return of \<^verbatim>\<open>wait_for\<close> (on a
  notification or on the timeout) to the end of the body. The thread runs only when the logger
  was constructed with \<^verbatim>\<open>asyncFlush\<close> and until \<^verbatim>\<open>shutdown\<close> joins it.\<close>

definition flushWorker :: "platform \<Rightarrow> time_point \<Rightarrow> BufferedLogger \<Rightarrow> BufferedLogger" where
  "flushWorker pf t s =
     (if m_flushThread s \<and> \<not> m_shutdown s then performFlush pf t s else s)"

section \<open>Submission\<close>

definition internalLog :: "platform \<Rightarrow> time_point \<Rightarrow> LogEntry \<Rightarrow> BufferedLogger \<Rightarrow> BufferedLogger" where
  "internalLog pf t entry s =
     (let s1 = set_currentBuffer (currentBuffer s @ [entry]) s;
          s2 = s1\<lparr>m_stats := (m_stats s1)
                 \<lparr>totalLogged := totalLogged (m_stats s1) + 1,
                  currentBufferSize := of_nat (length (currentBuffer s1))\<rparr>\<rparr>;
          shouldFlush = (bufferSize (m_config s2) \<le> length (currentBuffer s2)
                         \<or> maxMemoryBytes (m_config s2) \<le> estimateMemoryUsage pf s2)
      in if shouldFlush then
           (if asyncFlush (m_config s2) then s2\<lparr>m_forceFlushRequested := True\<rparr>
            else performFlush pf t s2)
         else s2)"

text \<open>\<^verbatim>\<open>log(LogLevel, const std::string&)\<close>.\<close>

definition log :: "platform \<Rightarrow> caller \<Rightarrow> LogLevel \<Rightarrow> string \<Rightarrow> BufferedLogger \<Rightarrow> error + BufferedLogger" where
  "log pf cx lvl msg s =
     (if level_value lvl < level_value (minimumLevel (m_config s)) then Inr s
      else if enableDeduplication (m_config s) then
        (let h = computeHash pf msg lvl in
         case shouldDeduplicate pf h (t_now cx) s of
           Inl e \<Rightarrow> Inl e
         | Inr (True, s1) \<Rightarrow>
             Inr (s1\<lparr>m_stats := (m_stats s1)
                    \<lparr>totalDeduplicated := totalDeduplicated (m_stats s1) + 1\<rparr>\<rparr>)
         | Inr (False, s1) \<Rightarrow>
             Inr (internalLog pf (t_flush cx)
                    (LogEntry_new (t_entry cx) (this_thread cx) lvl msg h) s1))
      else
        Inr (internalLog pf (t_flush cx)
               (LogEntry_new (t_entry cx) (this_thread cx) lvl msg 0) s))"

section \<open>Configuration and shutdown\<close>

definition setMinimumLevel :: "LogLevel \<Rightarrow> BufferedLogger \<Rightarrow> BufferedLogger" where
  "setMinimumLevel lvl s = s\<lparr>m_config := (m_config s)\<lparr>minimumLevel := lvl\<rparr>\<rparr>"

text \<open>The member function \<^verbatim>\<open>enableDeduplication(bool)\<close> (the name without suffix is the
  configuration field).\<close>

definition enableDeduplication_call :: "bool \<Rightarrow> BufferedLogger \<Rightarrow> BufferedLogger" where
  "enableDeduplication_call enable s =
     (let s1 = s\<lparr>m_config := (m_config s)\<lparr>enableDeduplication := enable\<rparr>\<rparr>
      in if \<not> enable then
           s1\<lparr>m_dedupeMap := Map.empty,
              m_dedupeWindow := replicate (length (m_dedupeWindow s1)) 0,
              m_dedupeWindowIndex := 0\<rparr>
         else s1)"

definition setFlushCallback :: "bool \<Rightarrow> BufferedLogger \<Rightarrow> BufferedLogger" where
  "setFlushCallback callback s = s\<lparr>m_flushCallback := callback\<rparr>"

text \<open>\<^verbatim>\<open>shutdown\<close>: the exchange on \<^verbatim>\<open>m_shutdown\<close>, the join of the drainer thread, the final
  \<^verbatim>\<open>forceFlush\<close>, the close of the file.\<close>

definition shutdown :: "platform \<Rightarrow> time_point \<Rightarrow> BufferedLogger \<Rightarrow> BufferedLogger" where
  "shutdown pf t s =
     (if m_shutdown s then s
      else
        let s1 = s\<lparr>m_shutdown := True\<rparr>;
            s2 = s1\<lparr>m_flushThread := False\<rparr>;
            s3 = forceFlush pf t s2
        in s3\<lparr>m_fileStream := False\<rparr>)"

section \<open>Sequences of calls\<close>

datatype call =
    Log caller LogLevel string
  | Flush time_point
  | ForceFlush time_point
  | FlushWorker time_point
  | SetMinimumLevel LogLevel
  | EnableDeduplication bool
  | SetFlushCallback bool
  | is_Shutdown: Shutdown time_point

fun do_call :: "platform \<Rightarrow> call \<Rightarrow> BufferedLogger \<Rightarrow> error + BufferedLogger" where
  "do_call pf (Log cx lvl msg) s = log pf cx lvl msg s"
| "do_call pf (Flush t) s = Inr (flush pf t s)"
| "do_call pf (ForceFlush t) s = Inr (forceFlush pf t s)"
| "do_call pf (FlushWorker t) s = Inr (flushWorker pf t s)"
| "do_call pf (SetMinimumLevel lvl) s = Inr (setMinimumLevel lvl s)"
| "do_call pf (EnableDeduplication b) s = Inr (enableDeduplication_call b s)"
| "do_call pf (SetFlushCallback b) s = Inr (setFlushCallback b s)"
| "do_call pf (Shutdown t) s = Inr (shutdown pf t s)"

fun run :: "platform \<Rightarrow> call list \<Rightarrow> BufferedLogger \<Rightarrow> error + BufferedLogger" where
  "run pf [] s = Inr s"
| "run pf (c # cs) s = (case do_call pf c s of Inl e \<Rightarrow> Inl e | Inr s1 \<Rightarrow> run pf cs s1)"

text \<open>A platform for the concrete runs below: a nanosecond clock, signed \<^verbatim>\<open>char\<close>, strings
  with a 15-byte small buffer.\<close>

definition example_platform :: platform where
  "example_platform =
     \<lparr>ticks_per_ms = 1000000, char_is_signed = True, sizeof_LogEntry = 72,
      string_capacity = (\<lambda>m. max 15 (length m)),
      put_time_local = (\<lambda>t. ''2024-01-01 00:00:00'')\<rparr>"

section \<open>Definitions used in the statements\<close>


text \<open>The cursor of the eviction ring lies inside the ring.\<close>

definition ring_ok :: "BufferedLogger \<Rightarrow> bool" where
  "ring_ok s \<longleftrightarrow> m_dedupeWindowIndex s < length (m_dedupeWindow s)"

text \<open>The buffer that is not active is empty, and the records counted in \<open>totalLogged\<close> are
  those counted in \<open>totalFlushed\<close> and those waiting in the active buffer.\<close>

definition accounted :: "BufferedLogger \<Rightarrow> bool" where
  "accounted s \<longleftrightarrow>
     (if m_useSecondaryBuffer s then m_primaryBuffer s = [] else m_secondaryBuffer s = []) \<and>
     totalLogged (m_stats s) = totalFlushed (m_stats s) + of_nat (length (currentBuffer s))"

text \<open>Every record in a buffer, handed to the callback or drained has \<open>count = 1\<close>.\<close>

definition single_counts :: "BufferedLogger \<Rightarrow> bool" where
  "single_counts s \<longleftrightarrow>
     (\<forall>e \<in> set (m_primaryBuffer s) \<union> set (m_secondaryBuffer s). count e = 1) \<and>
     (\<forall>batch \<in> set (callback_sink s). \<forall>e \<in> set batch. count e = 1) \<and>
     (\<forall>e \<in> set (drained s). count e = 1)"

text \<open>The sinks hold the formatted lines of the drained records, in the order of draining: the
  console all of them if it is enabled, the file those drained up to the moment it was
  closed. \<open>totalFlushed\<close> is the number of drained records.\<close>

definition sinks_follow :: "platform \<Rightarrow> BufferedLogger \<Rightarrow> bool" where
  "sinks_follow pf s \<longleftrightarrow>
     console_sink s =
       (if consoleOutput (m_config s) then map (formatLogEntry pf) (drained s) else []) \<and>
     (\<exists>k \<le> length (drained s). file_sink s = map (formatLogEntry pf) (take k (drained s))) \<and>
     (m_fileStream s \<longrightarrow> file_sink s = map (formatLogEntry pf) (drained s)) \<and>
     totalFlushed (m_stats s) = of_nat (length (drained s))"

text \<open>Inputs of the concrete runs: a synchronous logger with a ring of four slots and a
  window of 100 ms, and a caller whose clock readings all fall on millisecond \<open>t\<close>.\<close>

definition sync_config :: Config where
  "sync_config =
     \<lparr>bufferSize = 10000, maxMemoryBytes = 50 * 1024 * 1024, flushInterval = 1000,
      enableDeduplication = True, deduplicationWindowSize = 4,
      deduplicationTimeWindow = 100, minimumLevel = DEBUG, outputFile = ''driver.log'',
      consoleOutput = True, asyncFlush = False\<rparr>"

definition at_ms :: "int \<Rightarrow> caller" where
  "at_ms t = \<lparr>this_thread = 255, t_now = t * 1000000, t_entry = t * 1000000,
             t_flush = t * 1000000\<rparr>"

text \<open>Two cache states for the concrete probes, both on the ring of \<open>sync_config\<close>:
  one that saw fingerprint 7 at tick 0, and one whose slot at the cursor holds fingerprint 9,
  last seen at tick 0.\<close>

definition seen_cache :: BufferedLogger where
  "seen_cache =
     (BufferedLogger_init sync_config True)
       \<lparr>m_dedupeMap := [7 \<mapsto> \<lparr>lastSeen = 0, seen = 1\<rparr>],
        m_dedupeWindow := [7, 0, 0, 0],
        m_dedupeWindowIndex := 1\<rparr>"

definition stale_cache :: BufferedLogger where
  "stale_cache =
     (BufferedLogger_init sync_config True)
       \<lparr>m_dedupeMap := [9 \<mapsto> \<lparr>lastSeen = 0, seen = 1\<rparr>],
        m_dedupeWindow := [9, 0, 0, 0],
        m_dedupeWindowIndex := 0\<rparr>"

section \<open>Auxiliary facts\<close>

declare show_dec.simps [simp del] show_hex.simps [simp del]

lemmas run_defs = log_def shouldDeduplicate_def track_hash_def internalLog_def performFlush_def
  forceFlush_def flush_def flushWorker_def shutdown_def setMinimumLevel_def
  enableDeduplication_call_def setFlushCallback_def currentBuffer_def set_currentBuffer_def
  estimateMemoryUsage_def LogEntry_new_def BufferedLogger_init_def Let_def

subsection \<open>Arithmetic\<close>

lemma int_div_less_iff:
  fixes p d w :: int
  assumes p: "0 < p"
  shows "(d div p < w) = (d < w * p)"
proof
  have eq: "d = p * (d div p) + d mod p" by simp
  have m: "0 \<le> d mod p" "d mod p < p" using p by simp_all
  {
    assume "d div p < w"
    then have "d div p + 1 \<le> w" by simp
    then have "p * (d div p + 1) \<le> p * w" using p by (simp only: mult_le_cancel_left_pos)
    then have "p * (d div p) + p \<le> w * p" by (simp add: algebra_simps)
    with eq m show "d < w * p" by linarith
  }
  {
    assume lt: "d < w * p"
    show "d div p < w"
    proof (rule ccontr)
      assume "\<not> d div p < w"
      then have "w \<le> d div p" by simp
      then have "p * w \<le> p * (d div p)" using p by (simp only: mult_le_cancel_left_pos)
      moreover have "w * p = p * w" by simp
      ultimately show False using eq m lt by linarith
    qed
  }
qed

text \<open>The truncated millisecond difference compares with the window as the exact tick
  difference does, unless the difference is negative and the window is not positive.\<close>

lemma duration_cast_ms_less_iff:
  assumes "0 < ticks_per_ms pf" and "0 \<le> d \<or> 0 < w"
  shows "duration_cast_ms pf d < w \<longleftrightarrow> d < w * ticks_per_ms pf"
proof (cases "0 \<le> d")
  case True
  then show ?thesis using assms(1)
    by (simp add: duration_cast_ms_def int_div_less_iff)
next
  case False
  with assms have w: "0 < w" by simp
  have "0 \<le> (- d) div ticks_per_ms pf"
    using False assms(1) by (simp add: pos_imp_zdiv_nonneg_iff)
  moreover have "0 < w * ticks_per_ms pf" using w assms(1) by simp
  ultimately show ?thesis using False w by (simp add: duration_cast_ms_def)
qed

lemma duration_cast_ms_zero [simp]: "duration_cast_ms pf 0 = 0"
  by (simp add: duration_cast_ms_def)







subsection \<open>The string stream\<close>

lemma buf_put_string [simp]: "field_width ss = 0 \<Longrightarrow> buf (put_string txt ss) = buf ss @ txt"
  and width_put_string [simp]: "field_width (put_string txt ss) = 0"
  and hex_put_string [simp]: "flag_hex (put_string txt ss) = flag_hex ss"
  and fill_put_string [simp]: "fill_char (put_string txt ss) = fill_char ss"
  by (simp_all add: put_string_def put_padded_def)

lemma buf_put_unsigned [simp]:
  "field_width ss = 0 \<Longrightarrow>
     buf (put_unsigned n ss) = buf ss @ (if flag_hex ss then show_hex n else show_dec n)"
  and width_put_unsigned [simp]: "field_width (put_unsigned n ss) = 0"
  and hex_put_unsigned [simp]: "flag_hex (put_unsigned n ss) = flag_hex ss"
  by (simp_all add: put_unsigned_def put_padded_def)

lemma buf_put_signed_dec [simp]:
  "\<not> flag_hex ss \<Longrightarrow>
     buf (put_signed i ss) =
       buf ss @ replicate (field_width ss -
           length (if i < 0 then CHR ''-'' # show_dec (nat (- i)) else show_dec (nat i)))
         (fill_char ss) @
       (if i < 0 then CHR ''-'' # show_dec (nat (- i)) else show_dec (nat i))"
  and width_put_signed [simp]: "field_width (put_signed i ss) = 0"
  and hex_put_signed [simp]: "flag_hex (put_signed i ss) = flag_hex ss"
  by (simp_all add: put_signed_def put_padded_def)

lemma stream_flags [simp]:
  "buf (setfill c ss) = buf ss" "field_width (setfill c ss) = field_width ss"
  "flag_hex (setfill c ss) = flag_hex ss" "fill_char (setfill c ss) = c"
  "buf (setw n ss) = buf ss" "field_width (setw n ss) = n"
  "flag_hex (setw n ss) = flag_hex ss" "fill_char (setw n ss) = fill_char ss"
  "buf (set_hex b ss) = buf ss" "field_width (set_hex b ss) = field_width ss"
  "flag_hex (set_hex b ss) = b" "fill_char (set_hex b ss) = fill_char ss"
  "buf ostream_init = []" "field_width ostream_init = 0" "\<not> flag_hex ostream_init"
  by (simp_all add: setfill_def setw_def set_hex_def ostream_init_def)

lemma formatLogEntry_text:
  "formatLogEntry pf entry =
     ''['' @ put_time_local pf (timestamp entry) @ ''.'' @
     (let ms = trunc_rem (duration_cast_ms pf (timestamp entry)) 1000;
          digits = (if ms < 0 then CHR ''-'' # show_dec (nat (- ms)) else show_dec (nat ms))
      in replicate (3 - length digits) CHR ''0'' @ digits) @ ''] '' @
     ''['' @ levelStrings ! level_value (level entry) @ ''] '' @
     ''[T:'' @ show_hex (threadId entry) @ ''] '' @
     message entry @
     (if 1 < count entry
      then '' (repeated '' @ show_dec (unat (count entry)) @ '' times)'' else [])"
  unfolding formatLogEntry_def Let_def
  by (simp del: replicate.simps append.simps)

lemma levelStrings_nth:
  "levelStrings ! level_value lvl =
     (case lvl of TRACE \<Rightarrow> ''TRACE'' | DEBUG \<Rightarrow> ''DEBUG'' | INFO \<Rightarrow> ''INFO ''
      | WARNING \<Rightarrow> ''WARN '' | ERROR \<Rightarrow> ''ERROR'' | CRITICAL \<Rightarrow> ''CRIT '')"
  by (cases lvl) (simp_all add: levelStrings_def)

subsection \<open>What the drain loop and the probe leave unchanged\<close>

lemma write_entries_eq:
  "write_entries pf es s =
     s\<lparr>file_sink := file_sink s @ (if m_fileStream s then map (formatLogEntry pf) es else []),
       console_sink := console_sink s @
         (if consoleOutput (m_config s) then map (formatLogEntry pf) es else [])\<rparr>"
  by (induction es arbitrary: s) (simp_all add: Let_def)

lemma track_hash_not_True: "track_hash pf h now s \<noteq> Inr (True, s')"
  by (simp add: track_hash_def Let_def)

lemma track_hash_ring_ok:
  assumes "ring_ok s"
  shows "\<exists>s'. track_hash pf h now s = Inr (False, s') \<and> ring_ok s'"
proof -
  from assms have "m_dedupeWindowIndex s < length (m_dedupeWindow s)" by (simp add: ring_ok_def)
  then have "0 < length (m_dedupeWindow s)" by (rule le_less_trans [OF le0])
  then have "(m_dedupeWindowIndex s + 1) mod length (m_dedupeWindow s) < length (m_dedupeWindow s)"
    by (rule mod_less_divisor)
  with assms show ?thesis
    by (simp add: track_hash_def Let_def ring_ok_def)
qed

lemma shouldDeduplicate_frame:
  assumes "shouldDeduplicate pf h now s = Inr (b, s')"
  shows "\<exists>m w i. s' = s\<lparr>m_dedupeMap := m, m_dedupeWindow := w, m_dedupeWindowIndex := i\<rparr>"
proof (cases b)
  case True
  with assms have "\<exists>m. s' = s\<lparr>m_dedupeMap := m\<rparr>"
    by (auto simp: shouldDeduplicate_def track_hash_def Let_def split: option.splits if_splits)
  then obtain m where "s' = s\<lparr>m_dedupeMap := m\<rparr>" by blast
  then have "s' = s\<lparr>m_dedupeMap := m,
      m_dedupeWindow := m_dedupeWindow s, m_dedupeWindowIndex := m_dedupeWindowIndex s\<rparr>"
    by simp
  then show ?thesis by blast
next
  case False
  with assms have "track_hash pf h now s = Inr (False, s')"
    by (auto simp: shouldDeduplicate_def split: option.splits if_splits)
  then show ?thesis
    unfolding track_hash_def Let_def by (auto split: if_splits)
qed

text \<open>The three outcomes of \<^verbatim>\<open>log\<close> that return.\<close>

lemma log_cases:
  assumes "log pf cx lvl msg s = Inr s'"
  obtains
    (filtered) "s' = s"
  | (suppressed) s1 m w i where
      "s1 = s\<lparr>m_dedupeMap := m, m_dedupeWindow := w, m_dedupeWindowIndex := i\<rparr>"
      "s' = s1\<lparr>m_stats := (m_stats s1)\<lparr>totalDeduplicated := totalDeduplicated (m_stats s1) + 1\<rparr>\<rparr>"
  | (logged) s1 m w i h where
      "s1 = s\<lparr>m_dedupeMap := m, m_dedupeWindow := w, m_dedupeWindowIndex := i\<rparr>"
      "s' = internalLog pf (t_flush cx) (LogEntry_new (t_entry cx) (this_thread cx) lvl msg h) s1"
proof (cases "level_value lvl < level_value (minimumLevel (m_config s))")
  case True
  with assms have "s' = s" by (simp add: log_def)
  then show ?thesis by (rule filtered)
next
  case below: False
  show ?thesis
  proof (cases "enableDeduplication (m_config s)")
    case False
    with below assms
    have "s' = internalLog pf (t_flush cx) (LogEntry_new (t_entry cx) (this_thread cx) lvl msg 0)
            (s\<lparr>m_dedupeMap := m_dedupeMap s, m_dedupeWindow := m_dedupeWindow s,
               m_dedupeWindowIndex := m_dedupeWindowIndex s\<rparr>)"
      by (simp add: log_def)
    then show ?thesis using logged by blast
  next
    case True
    with below assms obtain b s1 where
      p: "shouldDeduplicate pf (computeHash pf msg lvl) (t_now cx) s = Inr (b, s1)"
      by (auto simp: log_def Let_def split: sum.splits)
    from shouldDeduplicate_frame [OF p] obtain m w i where
      s1: "s1 = s\<lparr>m_dedupeMap := m, m_dedupeWindow := w, m_dedupeWindowIndex := i\<rparr>"
      by blast
    show ?thesis
    proof (cases b)
      case True
      with p below \<open>enableDeduplication (m_config s)\<close> assms
      have "s' = s1\<lparr>m_stats := (m_stats s1)
                    \<lparr>totalDeduplicated := totalDeduplicated (m_stats s1) + 1\<rparr>\<rparr>"
        by (simp add: log_def Let_def)
      with s1 show ?thesis using suppressed by blast
    next
      case False
      with p below \<open>enableDeduplication (m_config s)\<close> assms
      have "s' = internalLog pf (t_flush cx)
                    (LogEntry_new (t_entry cx) (this_thread cx) lvl msg (computeHash pf msg lvl)) s1"
        by (simp add: log_def Let_def)
      with s1 show ?thesis using logged by blast
    qed
  qed
qed

text \<open>\<^verbatim>\<open>internalLog\<close> appends, counts, and then leaves the state, requests a flush or
  drains.\<close>

lemma internalLog_cases:
  obtains s2 where
    "s2 = (let s1 = set_currentBuffer (currentBuffer s @ [e]) s in
            s1\<lparr>m_stats := (m_stats s1)
                 \<lparr>totalLogged := totalLogged (m_stats s1) + 1,
                  currentBufferSize := of_nat (length (currentBuffer s1))\<rparr>\<rparr>)"
    "internalLog pf t e s = s2 \<or> internalLog pf t e s = s2\<lparr>m_forceFlushRequested := True\<rparr>
       \<or> internalLog pf t e s = performFlush pf t s2"
  by (simp add: internalLog_def Let_def)

subsection \<open>Accounting of records\<close>

lemma accounted_performFlush: "accounted s \<Longrightarrow> accounted (performFlush pf t s)"
  by (auto simp: accounted_def performFlush_def Let_def write_entries_eq
      set_currentBuffer_def currentBuffer_def)

lemma performFlush_drains:
  assumes "accounted s"
  shows "totalLogged (m_stats (performFlush pf t s)) = totalFlushed (m_stats (performFlush pf t s))
       \<and> m_primaryBuffer (performFlush pf t s) = [] \<and> m_secondaryBuffer (performFlush pf t s) = []"
  using assms
  by (auto simp: accounted_def performFlush_def Let_def write_entries_eq
      set_currentBuffer_def currentBuffer_def)

lemma accounted_internalLog:
  assumes "accounted s"
  shows "accounted (internalLog pf t e s)"
proof -
  obtain s2 where s2: "s2 = (let s1 = set_currentBuffer (currentBuffer s @ [e]) s in
            s1\<lparr>m_stats := (m_stats s1)
                 \<lparr>totalLogged := totalLogged (m_stats s1) + 1,
                  currentBufferSize := of_nat (length (currentBuffer s1))\<rparr>\<rparr>)"
    and c: "internalLog pf t e s = s2 \<or> internalLog pf t e s = s2\<lparr>m_forceFlushRequested := True\<rparr>
       \<or> internalLog pf t e s = performFlush pf t s2"
    by (rule internalLog_cases)
  have a2: "accounted s2"
    using assms by (auto simp: s2 accounted_def Let_def set_currentBuffer_def currentBuffer_def)
  moreover have "accounted (s2\<lparr>m_forceFlushRequested := True\<rparr>)"
    using a2 by (simp add: accounted_def currentBuffer_def)
  ultimately show ?thesis using c accounted_performFlush [of s2 pf t] by auto
qed

lemma accounted_log:
  assumes "accounted s" and "log pf cx lvl msg s = Inr s'"
  shows "accounted s'"
  using assms(2)
proof (cases rule: log_cases)
  case filtered
  with assms show ?thesis by simp
next
  case (suppressed s1 m w i)
  with assms(1) show ?thesis by (simp add: accounted_def currentBuffer_def)
next
  case (logged s1 m w i h)
  from logged(1) assms(1) have "accounted s1" by (simp add: accounted_def currentBuffer_def)
  with logged(2) show ?thesis by (simp add: accounted_internalLog)
qed

lemma accounted_shutdown: "accounted s \<Longrightarrow> accounted (shutdown pf t s)"
  using accounted_performFlush [of "s\<lparr>m_shutdown := True, m_flushThread := False\<rparr>" pf t]
  by (simp add: shutdown_def Let_def forceFlush_def accounted_def currentBuffer_def)

lemma accounted_do_call:
  assumes "accounted s" and "do_call pf c s = Inr s'"
  shows "accounted s'"
proof (cases c)
  case (Log cx lvl msg)
  with assms show ?thesis by (auto intro: accounted_log)
next
  case (Flush t)
  with assms accounted_performFlush [of s pf t] show ?thesis
    by (auto simp: flush_def accounted_def currentBuffer_def)
next
  case (ForceFlush t)
  with assms show ?thesis by (auto simp: forceFlush_def accounted_performFlush)
next
  case (FlushWorker t)
  with assms show ?thesis by (auto simp: flushWorker_def accounted_performFlush)
next
  case (SetMinimumLevel lvl)
  with assms show ?thesis by (auto simp: setMinimumLevel_def accounted_def currentBuffer_def)
next
  case (EnableDeduplication b)
  with assms show ?thesis
    by (auto simp: enableDeduplication_call_def Let_def accounted_def currentBuffer_def)
next
  case (SetFlushCallback b)
  with assms show ?thesis by (auto simp: setFlushCallback_def accounted_def currentBuffer_def)
next
  case (Shutdown t)
  with assms show ?thesis by (auto simp: accounted_shutdown)
qed

lemma accounted_run:
  "accounted s \<Longrightarrow> run pf calls s = Inr s' \<Longrightarrow> accounted s'"
proof (induction calls arbitrary: s)
  case Nil
  then show ?case by simp
next
  case (Cons c cs)
  then show ?case by (auto split: sum.splits dest: accounted_do_call)
qed

lemma accounted_init: "accounted (BufferedLogger_init config file_opens)"
  by (simp add: accounted_def BufferedLogger_init_def currentBuffer_def)

subsection \<open>The shutdown flag\<close>

lemma m_shutdown_performFlush [simp]: "m_shutdown (performFlush pf t s) = m_shutdown s"
  by (simp add: performFlush_def Let_def write_entries_eq set_currentBuffer_def)

lemma m_shutdown_internalLog [simp]: "m_shutdown (internalLog pf t e s) = m_shutdown s"
proof -
  obtain s2 where s2: "s2 = (let s1 = set_currentBuffer (currentBuffer s @ [e]) s in
            s1\<lparr>m_stats := (m_stats s1)
                 \<lparr>totalLogged := totalLogged (m_stats s1) + 1,
                  currentBufferSize := of_nat (length (currentBuffer s1))\<rparr>\<rparr>)"
    and c: "internalLog pf t e s = s2 \<or> internalLog pf t e s = s2\<lparr>m_forceFlushRequested := True\<rparr>
       \<or> internalLog pf t e s = performFlush pf t s2"
    by (rule internalLog_cases)
  have "m_shutdown s2 = m_shutdown s" by (simp add: s2 Let_def set_currentBuffer_def)
  with c show ?thesis by auto
qed

lemma m_shutdown_do_call:
  assumes "\<not> is_Shutdown c" and "do_call pf c s = Inr s'"
  shows "m_shutdown s' = m_shutdown s"
proof (cases c)
  case (Log cx lvl msg)
  with assms have "log pf cx lvl msg s = Inr s'" by simp
  then show ?thesis by (cases rule: log_cases) simp_all
next
  case (Flush t)
  with assms have "s' = flush pf t s" by simp
  then show ?thesis by (simp add: flush_def)
next
  case (ForceFlush t)
  with assms have "s' = forceFlush pf t s" by simp
  then show ?thesis by (simp add: forceFlush_def)
next
  case (FlushWorker t)
  with assms have "s' = flushWorker pf t s" by simp
  then show ?thesis by (simp add: flushWorker_def)
next
  case (SetMinimumLevel lvl)
  with assms have "s' = setMinimumLevel lvl s" by simp
  then show ?thesis by (simp add: setMinimumLevel_def)
next
  case (EnableDeduplication b)
  with assms have "s' = enableDeduplication_call b s" by simp
  then show ?thesis by (simp add: enableDeduplication_call_def Let_def)
next
  case (SetFlushCallback b)
  with assms have "s' = setFlushCallback b s" by simp
  then show ?thesis by (simp add: setFlushCallback_def)
next
  case (Shutdown t)
  with assms show ?thesis by simp
qed

lemma m_shutdown_run:
  "\<forall>c \<in> set calls. \<not> is_Shutdown c \<Longrightarrow> run pf calls s = Inr s' \<Longrightarrow> m_shutdown s' = m_shutdown s"
proof (induction calls arbitrary: s)
  case Nil
  then show ?case by simp
next
  case (Cons c cs)
  then show ?case by (auto split: sum.splits dest: m_shutdown_do_call)
qed

subsection \<open>The ring cursor\<close>

lemma ring_performFlush [simp]:
  "m_dedupeWindow (performFlush pf t s) = m_dedupeWindow s"
  "m_dedupeWindowIndex (performFlush pf t s) = m_dedupeWindowIndex s"
  by (simp_all add: performFlush_def Let_def write_entries_eq set_currentBuffer_def)

lemma ring_internalLog [simp]:
  "m_dedupeWindow (internalLog pf t e s) = m_dedupeWindow s"
  "m_dedupeWindowIndex (internalLog pf t e s) = m_dedupeWindowIndex s"
proof -
  obtain s2 where s2: "s2 = (let s1 = set_currentBuffer (currentBuffer s @ [e]) s in
            s1\<lparr>m_stats := (m_stats s1)
                 \<lparr>totalLogged := totalLogged (m_stats s1) + 1,
                  currentBufferSize := of_nat (length (currentBuffer s1))\<rparr>\<rparr>)"
    and c: "internalLog pf t e s = s2 \<or> internalLog pf t e s = s2\<lparr>m_forceFlushRequested := True\<rparr>
       \<or> internalLog pf t e s = performFlush pf t s2"
    by (rule internalLog_cases)
  have "m_dedupeWindow s2 = m_dedupeWindow s" "m_dedupeWindowIndex s2 = m_dedupeWindowIndex s"
    by (simp_all add: s2 Let_def set_currentBuffer_def)
  with c show "m_dedupeWindow (internalLog pf t e s) = m_dedupeWindow s"
    "m_dedupeWindowIndex (internalLog pf t e s) = m_dedupeWindowIndex s"
    by auto
qed

lemma ring_ok_shouldDeduplicate:
  assumes "ring_ok s"
  shows "\<exists>b s'. shouldDeduplicate pf h now s = Inr (b, s') \<and> ring_ok s'"
proof (cases "\<exists>it. m_dedupeMap s h = Some it \<and>
    duration_cast_ms pf (now - lastSeen it) < deduplicationTimeWindow (m_config s)")
  case True
  with assms show ?thesis by (auto simp: shouldDeduplicate_def ring_ok_def)
next
  case False
  then have "shouldDeduplicate pf h now s = track_hash pf h now s"
    by (auto simp: shouldDeduplicate_def split: option.splits)
  with track_hash_ring_ok [OF assms, of pf h now] show ?thesis by auto
qed

lemma ring_ok_log:
  assumes "ring_ok s"
  shows "\<exists>s'. log pf cx lvl msg s = Inr s' \<and> ring_ok s'"
proof -
  obtain b s1 where p: "shouldDeduplicate pf (computeHash pf msg lvl) (t_now cx) s = Inr (b, s1)"
    and r: "ring_ok s1"
    using ring_ok_shouldDeduplicate [OF assms] by blast
  from p r assms show ?thesis
    by (cases b) (simp_all add: log_def Let_def ring_ok_def)
qed

lemma ring_ok_do_call:
  assumes "ring_ok s"
  shows "\<exists>s'. do_call pf c s = Inr s' \<and> ring_ok s'"
proof (cases c)
  case (Log cx lvl msg)
  with ring_ok_log [OF assms] show ?thesis by simp
next
  case (Flush t)
  with assms show ?thesis by (simp add: flush_def ring_ok_def)
next
  case (ForceFlush t)
  with assms show ?thesis by (simp add: forceFlush_def ring_ok_def)
next
  case (FlushWorker t)
  with assms show ?thesis by (simp add: flushWorker_def ring_ok_def)
next
  case (SetMinimumLevel lvl)
  with assms show ?thesis by (simp add: setMinimumLevel_def ring_ok_def)
next
  case (EnableDeduplication b)
  with assms show ?thesis
    by (auto simp: enableDeduplication_call_def Let_def ring_ok_def)
next
  case (SetFlushCallback b)
  with assms show ?thesis by (simp add: setFlushCallback_def ring_ok_def)
next
  case (Shutdown t)
  with assms show ?thesis
    by (simp add: shutdown_def Let_def forceFlush_def ring_ok_def)
qed

lemma ring_ok_run:
  "ring_ok s \<Longrightarrow> \<exists>s'. run pf calls s = Inr s' \<and> ring_ok s'"
proof (induction calls arbitrary: s)
  case Nil
  then show ?case by simp
next
  case (Cons c cs)
  from ring_ok_do_call [OF Cons.prems, of pf c] obtain s1 where
    "do_call pf c s = Inr s1" "ring_ok s1" by blast
  with Cons.IH [of s1] show ?case by simp
qed

lemma ring_ok_init:
  "enableDeduplication config \<Longrightarrow> 0 < deduplicationWindowSize config \<Longrightarrow>
     ring_ok (BufferedLogger_init config file_opens)"
  by (simp add: ring_ok_def BufferedLogger_init_def)

subsection \<open>Occurrence counts of records\<close>

lemma single_counts_performFlush:
  assumes "single_counts s"
  shows "single_counts (performFlush pf t s)"
proof (cases "currentBuffer s = []")
  case True
  with assms show ?thesis by (simp add: performFlush_def)
next
  case False
  have cur: "\<forall>e \<in> set (currentBuffer s). count e = 1"
    using assms by (simp add: single_counts_def currentBuffer_def)
  have b: "set (m_primaryBuffer (performFlush pf t s)) \<subseteq> set (m_primaryBuffer s)"
    "set (m_secondaryBuffer (performFlush pf t s)) \<subseteq> set (m_secondaryBuffer s)"
    by (simp_all add: performFlush_def Let_def write_entries_eq set_currentBuffer_def)
  have c: "set (callback_sink (performFlush pf t s)) \<subseteq> insert (currentBuffer s) (set (callback_sink s))"
    by (auto simp: performFlush_def Let_def write_entries_eq set_currentBuffer_def)
  have d: "set (drained (performFlush pf t s)) \<subseteq> set (drained s) \<union> set (currentBuffer s)"
    by (auto simp: performFlush_def Let_def write_entries_eq set_currentBuffer_def)
  have 1: "\<forall>e \<in> set (m_primaryBuffer (performFlush pf t s))
               \<union> set (m_secondaryBuffer (performFlush pf t s)). count e = 1"
    using assms b by (auto simp: single_counts_def)
  have 2: "\<forall>batch \<in> set (callback_sink (performFlush pf t s)). \<forall>e \<in> set batch. count e = 1"
    using assms c cur by (auto simp: single_counts_def)
  have 3: "\<forall>e \<in> set (drained (performFlush pf t s)). count e = 1"
    using assms d cur by (auto simp: single_counts_def)
  from 1 2 3 show ?thesis unfolding single_counts_def by blast
qed

lemma single_counts_internalLog:
  assumes "single_counts s" and "count e = 1"
  shows "single_counts (internalLog pf t e s)"
proof -
  obtain s2 where s2: "s2 = (let s1 = set_currentBuffer (currentBuffer s @ [e]) s in
            s1\<lparr>m_stats := (m_stats s1)
                 \<lparr>totalLogged := totalLogged (m_stats s1) + 1,
                  currentBufferSize := of_nat (length (currentBuffer s1))\<rparr>\<rparr>)"
    and c: "internalLog pf t e s = s2 \<or> internalLog pf t e s = s2\<lparr>m_forceFlushRequested := True\<rparr>
       \<or> internalLog pf t e s = performFlush pf t s2"
    by (rule internalLog_cases)
  have a2: "single_counts s2"
    using assms by (auto simp: s2 single_counts_def Let_def set_currentBuffer_def currentBuffer_def)
  moreover have "single_counts (s2\<lparr>m_forceFlushRequested := True\<rparr>)"
    using a2 by (simp add: single_counts_def)
  ultimately show ?thesis using c single_counts_performFlush [of s2 pf t] by auto
qed

lemma single_counts_log:
  assumes "single_counts s" and "log pf cx lvl msg s = Inr s'"
  shows "single_counts s'"
  using assms(2)
proof (cases rule: log_cases)
  case filtered
  with assms show ?thesis by simp
next
  case (suppressed s1 m w i)
  with assms(1) show ?thesis by (simp add: single_counts_def)
next
  case (logged s1 m w i h)
  from logged(1) assms(1) have "single_counts s1" by (simp add: single_counts_def)
  with logged(2) show ?thesis by (simp add: single_counts_internalLog LogEntry_new_def)
qed

lemma single_counts_do_call:
  assumes "single_counts s" and "do_call pf c s = Inr s'"
  shows "single_counts s'"
proof (cases c)
  case (Log cx lvl msg)
  with assms show ?thesis by (auto intro: single_counts_log)
next
  case (Flush t)
  have "single_counts (s\<lparr>m_forceFlushRequested := True\<rparr>)"
    using assms(1) by (simp add: single_counts_def)
  with Flush assms single_counts_performFlush [of s pf t] show ?thesis
    by (cases "asyncFlush (m_config s)") (auto simp: flush_def)
next
  case (ForceFlush t)
  with assms show ?thesis by (auto simp: forceFlush_def single_counts_performFlush)
next
  case (FlushWorker t)
  with assms show ?thesis by (auto simp: flushWorker_def single_counts_performFlush)
next
  case (SetMinimumLevel lvl)
  with assms show ?thesis by (auto simp: setMinimumLevel_def single_counts_def)
next
  case (EnableDeduplication b)
  with assms show ?thesis
    by (cases b) (auto simp: enableDeduplication_call_def Let_def single_counts_def)
next
  case (SetFlushCallback b)
  with assms show ?thesis by (auto simp: setFlushCallback_def single_counts_def)
next
  case (Shutdown t)
  have "single_counts (s\<lparr>m_shutdown := True, m_flushThread := False\<rparr>)"
    using assms(1) by (simp add: single_counts_def)
  from single_counts_performFlush [OF this, of pf t]
  have "single_counts ((performFlush pf t (s\<lparr>m_shutdown := True, m_flushThread := False\<rparr>))
      \<lparr>m_fileStream := False\<rparr>)"
    by (simp add: single_counts_def)
  with Shutdown assms show ?thesis
    by (auto simp: shutdown_def Let_def forceFlush_def)
qed

lemma single_counts_run:
  "single_counts s \<Longrightarrow> run pf calls s = Inr s' \<Longrightarrow> single_counts s'"
proof (induction calls arbitrary: s)
  case Nil
  then show ?case by simp
next
  case (Cons c cs)
  then show ?case by (auto split: sum.splits dest: single_counts_do_call)
qed

lemma single_counts_init: "single_counts (BufferedLogger_init config file_opens)"
  by (simp add: single_counts_def BufferedLogger_init_def)

subsection \<open>The sinks and the drained records\<close>

lemma sinks_follow_performFlush:
  assumes "sinks_follow pf s"
  shows "sinks_follow pf (performFlush pf t s)"
proof (cases "currentBuffer s = []")
  case True
  with assms show ?thesis by (simp add: performFlush_def)
next
  case False
  have cfg: "m_config (performFlush pf t s) = m_config s"
    and fs: "m_fileStream (performFlush pf t s) = m_fileStream s"
    and dr: "drained (performFlush pf t s) = drained s @ currentBuffer s"
    and co: "console_sink (performFlush pf t s) =
        console_sink s @ (if consoleOutput (m_config s)
                          then map (formatLogEntry pf) (currentBuffer s) else [])"
    and fi: "file_sink (performFlush pf t s) =
        file_sink s @ (if m_fileStream s then map (formatLogEntry pf) (currentBuffer s) else [])"
    using False
    by (simp_all add: performFlush_def Let_def write_entries_eq set_currentBuffer_def
        currentBuffer_def)
  from assms have c0: "console_sink s =
      (if consoleOutput (m_config s) then map (formatLogEntry pf) (drained s) else [])"
    and f1: "m_fileStream s \<longrightarrow> file_sink s = map (formatLogEntry pf) (drained s)"
    by (simp_all add: sinks_follow_def)
  from assms obtain k where k: "k \<le> length (drained s)"
    "file_sink s = map (formatLogEntry pf) (take k (drained s))"
    unfolding sinks_follow_def by blast
  have 1: "console_sink (performFlush pf t s) =
      (if consoleOutput (m_config (performFlush pf t s))
       then map (formatLogEntry pf) (drained (performFlush pf t s)) else [])"
    using c0 by (simp add: cfg dr co)
  have 3: "m_fileStream (performFlush pf t s) \<longrightarrow>
      file_sink (performFlush pf t s) = map (formatLogEntry pf) (drained (performFlush pf t s))"
    using f1 by (simp add: fs dr fi)
  have 2: "\<exists>k \<le> length (drained (performFlush pf t s)).
      file_sink (performFlush pf t s) =
        map (formatLogEntry pf) (take k (drained (performFlush pf t s)))"
  proof (cases "m_fileStream s")
    case True
    with 3 fs have "file_sink (performFlush pf t s) =
        map (formatLogEntry pf)
          (take (length (drained (performFlush pf t s))) (drained (performFlush pf t s)))"
      by simp
    then show ?thesis by blast
  next
    case False
    with k have "k \<le> length (drained (performFlush pf t s))"
      "file_sink (performFlush pf t s) =
         map (formatLogEntry pf) (take k (drained (performFlush pf t s)))"
      by (simp_all add: dr fi)
    then show ?thesis by blast
  qed
  have 4: "totalFlushed (m_stats (performFlush pf t s)) =
      of_nat (length (drained (performFlush pf t s)))"
    using assms False
    by (simp add: sinks_follow_def performFlush_def Let_def write_entries_eq
        set_currentBuffer_def currentBuffer_def)
  from 1 2 3 4 show ?thesis unfolding sinks_follow_def by blast
qed

lemma sinks_follow_internalLog:
  assumes "sinks_follow pf s"
  shows "sinks_follow pf (internalLog pf t e s)"
proof -
  obtain s2 where s2: "s2 = (let s1 = set_currentBuffer (currentBuffer s @ [e]) s in
            s1\<lparr>m_stats := (m_stats s1)
                 \<lparr>totalLogged := totalLogged (m_stats s1) + 1,
                  currentBufferSize := of_nat (length (currentBuffer s1))\<rparr>\<rparr>)"
    and c: "internalLog pf t e s = s2 \<or> internalLog pf t e s = s2\<lparr>m_forceFlushRequested := True\<rparr>
       \<or> internalLog pf t e s = performFlush pf t s2"
    by (rule internalLog_cases)
  have a2: "sinks_follow pf s2"
    using assms by (simp add: s2 sinks_follow_def Let_def set_currentBuffer_def)
  moreover have "sinks_follow pf (s2\<lparr>m_forceFlushRequested := True\<rparr>)"
    using a2 by (simp add: sinks_follow_def)
  ultimately show ?thesis using c sinks_follow_performFlush [of pf s2 t] by auto
qed

lemma sinks_follow_log:
  assumes "sinks_follow pf s" and "log pf cx lvl msg s = Inr s'"
  shows "sinks_follow pf s'"
  using assms(2)
proof (cases rule: log_cases)
  case filtered
  with assms show ?thesis by simp
next
  case (suppressed s1 m w i)
  with assms(1) show ?thesis by (simp add: sinks_follow_def)
next
  case (logged s1 m w i h)
  from logged(1) assms(1) have "sinks_follow pf s1" by (simp add: sinks_follow_def)
  with logged(2) show ?thesis by (simp add: sinks_follow_internalLog)
qed

lemma sinks_follow_shutdown:
  assumes "sinks_follow pf s"
  shows "sinks_follow pf (shutdown pf t s)"
proof (cases "m_shutdown s")
  case True
  with assms show ?thesis by (simp add: shutdown_def)
next
  case False
  have "sinks_follow pf (s\<lparr>m_shutdown := True, m_flushThread := False\<rparr>)"
    using assms by (simp add: sinks_follow_def)
  from sinks_follow_performFlush [OF this, of t]
  have "sinks_follow pf ((performFlush pf t (s\<lparr>m_shutdown := True, m_flushThread := False\<rparr>))
      \<lparr>m_fileStream := False\<rparr>)"
    by (simp add: sinks_follow_def)
  with False show ?thesis by (simp add: shutdown_def Let_def forceFlush_def)
qed

lemma sinks_follow_do_call:
  assumes "sinks_follow pf s" and "do_call pf c s = Inr s'"
  shows "sinks_follow pf s'"
proof (cases c)
  case (Log cx lvl msg)
  with assms show ?thesis by (auto intro: sinks_follow_log)
next
  case (Flush t)
  have "sinks_follow pf (s\<lparr>m_forceFlushRequested := True\<rparr>)"
    using assms(1) by (simp add: sinks_follow_def)
  with Flush assms sinks_follow_performFlush [of pf s t] show ?thesis
    by (cases "asyncFlush (m_config s)") (auto simp: flush_def)
next
  case (ForceFlush t)
  with assms show ?thesis by (auto simp: forceFlush_def sinks_follow_performFlush)
next
  case (FlushWorker t)
  with assms show ?thesis by (auto simp: flushWorker_def sinks_follow_performFlush)
next
  case (SetMinimumLevel lvl)
  with assms show ?thesis by (auto simp: setMinimumLevel_def sinks_follow_def)
next
  case (EnableDeduplication b)
  with assms show ?thesis
    by (cases b) (auto simp: enableDeduplication_call_def Let_def sinks_follow_def)
next
  case (SetFlushCallback b)
  with assms show ?thesis by (auto simp: setFlushCallback_def sinks_follow_def)
next
  case (Shutdown t)
  with assms show ?thesis by (auto simp: sinks_follow_shutdown)
qed

lemma sinks_follow_run:
  "sinks_follow pf s \<Longrightarrow> run pf calls s = Inr s' \<Longrightarrow> sinks_follow pf s'"
proof (induction calls arbitrary: s)
  case Nil
  then show ?case by simp
next
  case (Cons c cs)
  then show ?case by (auto split: sum.splits dest: sinks_follow_do_call)
qed

lemma sinks_follow_init: "sinks_follow pf (BufferedLogger_init config file_opens)"
  by (simp add: sinks_follow_def BufferedLogger_init_def)

text \<open>No call changes \<^verbatim>\<open>consoleOutput\<close>.\<close>

lemma consoleOutput_performFlush [simp]:
  "consoleOutput (m_config (performFlush pf t s)) = consoleOutput (m_config s)"
  by (simp add: performFlush_def Let_def write_entries_eq set_currentBuffer_def)

lemma consoleOutput_internalLog [simp]:
  "consoleOutput (m_config (internalLog pf t e s)) = consoleOutput (m_config s)"
proof -
  obtain s2 where s2: "s2 = (let s1 = set_currentBuffer (currentBuffer s @ [e]) s in
            s1\<lparr>m_stats := (m_stats s1)
                 \<lparr>totalLogged := totalLogged (m_stats s1) + 1,
                  currentBufferSize := of_nat (length (currentBuffer s1))\<rparr>\<rparr>)"
    and c: "internalLog pf t e s = s2 \<or> internalLog pf t e s = s2\<lparr>m_forceFlushRequested := True\<rparr>
       \<or> internalLog pf t e s = performFlush pf t s2"
    by (rule internalLog_cases)
  have "m_config s2 = m_config s" by (simp add: s2 Let_def set_currentBuffer_def)
  with c show ?thesis by auto
qed

lemma consoleOutput_do_call:
  assumes "do_call pf c s = Inr s'"
  shows "consoleOutput (m_config s') = consoleOutput (m_config s)"
proof (cases c)
  case (Log cx lvl msg)
  with assms have "log pf cx lvl msg s = Inr s'" by simp
  then show ?thesis by (cases rule: log_cases) simp_all
next
  case (Flush t)
  with assms have "s' = flush pf t s" by simp
  then show ?thesis by (simp add: flush_def)
next
  case (ForceFlush t)
  with assms have "s' = forceFlush pf t s" by simp
  then show ?thesis by (simp add: forceFlush_def)
next
  case (FlushWorker t)
  with assms have "s' = flushWorker pf t s" by simp
  then show ?thesis by (simp add: flushWorker_def)
next
  case (SetMinimumLevel lvl)
  with assms have "s' = setMinimumLevel lvl s" by simp
  then show ?thesis by (simp add: setMinimumLevel_def)
next
  case (EnableDeduplication b)
  with assms have "s' = enableDeduplication_call b s" by simp
  then show ?thesis by (simp add: enableDeduplication_call_def Let_def)
next
  case (SetFlushCallback b)
  with assms have "s' = setFlushCallback b s" by simp
  then show ?thesis by (simp add: setFlushCallback_def)
next
  case (Shutdown t)
  with assms have "s' = shutdown pf t s" by simp
  then show ?thesis by (simp add: shutdown_def Let_def forceFlush_def)
qed

lemma consoleOutput_run:
  "run pf calls s = Inr s' \<Longrightarrow> consoleOutput (m_config s') = consoleOutput (m_config s)"
proof (induction calls arbitrary: s)
  case Nil
  then show ?case by simp
next
  case (Cons c cs)
  then show ?case by (auto split: sum.splits dest: consoleOutput_do_call)
qed

section \<open>The claims\<close>

subsection \<open>Statistics after shutdown\<close>

text \<open>
  Two submissions of the same message one millisecond apart, then \<^verbatim>\<open>shutdown\<close>: the second
  is suppressed, so \<open>totalLogged = 1\<close>, \<open>totalDeduplicated = 1\<close> and \<open>totalFlushed = 1\<close>,
  and \<open>totalLogged - totalDeduplicated\<close> is 0, not \<open>totalFlushed\<close>.
\<close>

theorem logged_minus_deduplicated_counterexample:
  "\<not> isl (run example_platform
             [Log (at_ms 0) INFO ''dup'', Log (at_ms 1) INFO ''dup'', Shutdown 2000000]
             (BufferedLogger_init sync_config True))
   \<and> totalLogged (m_stats (projr (run example_platform
             [Log (at_ms 0) INFO ''dup'', Log (at_ms 1) INFO ''dup'', Shutdown 2000000]
             (BufferedLogger_init sync_config True))))
       - totalDeduplicated (m_stats (projr (run example_platform
             [Log (at_ms 0) INFO ''dup'', Log (at_ms 1) INFO ''dup'', Shutdown 2000000]
             (BufferedLogger_init sync_config True))))
     \<noteq> totalFlushed (m_stats (projr (run example_platform
             [Log (at_ms 0) INFO ''dup'', Log (at_ms 1) INFO ''dup'', Shutdown 2000000]
             (BufferedLogger_init sync_config True))))"
  by (simp add: run_defs sync_config_def at_ms_def example_platform_def duration_cast_ms_def)

text \<open>
  Claim C1, as the code has it. \<open>totalLogged\<close> is incremented in \<^verbatim>\<open>internalLog\<close> only, so it
  already leaves out the suppressed submissions, which are counted in \<open>totalDeduplicated\<close>
  alone. For every sequence of calls without a shutdown (submissions, flushes, wake-ups of the
  drainer, configuration changes) on a freshly constructed logger, in synchronous or
  asynchronous mode, after \<^verbatim>\<open>shutdown\<close> the counters satisfy \<open>totalLogged = totalFlushed\<close> and
  both buffers are empty. The sequence does return a state whenever the ring was allocated at
  construction.
\<close>

theorem shutdown_totalLogged_eq_totalFlushed:
  assumes "\<forall>c \<in> set calls. \<not> is_Shutdown c"
  shows "(\<forall>s. run pf calls (BufferedLogger_init config file_opens) = Inr s \<longrightarrow>
            totalLogged (m_stats (shutdown pf t s)) = totalFlushed (m_stats (shutdown pf t s))
            \<and> m_primaryBuffer (shutdown pf t s) = []
            \<and> m_secondaryBuffer (shutdown pf t s) = [])
       \<and> (enableDeduplication config \<and> 0 < deduplicationWindowSize config \<longrightarrow>
            (\<exists>s. run pf calls (BufferedLogger_init config file_opens) = Inr s))"
proof (intro conjI allI impI)
  fix s
  assume r: "run pf calls (BufferedLogger_init config file_opens) = Inr s"
  from accounted_run [OF accounted_init r] have a: "accounted s" .
  from m_shutdown_run [OF assms r] have "\<not> m_shutdown s"
    by (simp add: BufferedLogger_init_def)
  then have sd: "shutdown pf t s =
      (performFlush pf t (s\<lparr>m_shutdown := True, m_flushThread := False\<rparr>))\<lparr>m_fileStream := False\<rparr>"
    by (simp add: shutdown_def Let_def forceFlush_def)
  from a have "accounted (s\<lparr>m_shutdown := True, m_flushThread := False\<rparr>)"
    by (simp add: accounted_def currentBuffer_def)
  from performFlush_drains [OF this, of pf t] sd
  show "totalLogged (m_stats (shutdown pf t s)) = totalFlushed (m_stats (shutdown pf t s))"
    and "m_primaryBuffer (shutdown pf t s) = []"
    and "m_secondaryBuffer (shutdown pf t s) = []"
    by simp_all
next
  assume "enableDeduplication config \<and> 0 < deduplicationWindowSize config"
  then have "ring_ok (BufferedLogger_init config file_opens)"
    by (simp add: ring_ok_init)
  from ring_ok_run [OF this, of pf calls]
  show "\<exists>s. run pf calls (BufferedLogger_init config file_opens) = Inr s" by blast
qed

theorem shutdown_totalLogged_eq_totalFlushed_witness:
  "\<exists>s. run example_platform
          [Log (at_ms 0) INFO ''dup'', Log (at_ms 1) INFO ''dup'', FlushWorker 2000000,
           Log (at_ms 3) ERROR ''failed'']
          (BufferedLogger_init (sync_config\<lparr>asyncFlush := True\<rparr>) True) = Inr s
     \<and> totalLogged (m_stats (shutdown example_platform 4000000 s))
         = totalFlushed (m_stats (shutdown example_platform 4000000 s))"
  using shutdown_totalLogged_eq_totalFlushed [of
      "[Log (at_ms 0) INFO ''dup'', Log (at_ms 1) INFO ''dup'', FlushWorker 2000000,
        Log (at_ms 3) ERROR ''failed'']"
      example_platform "sync_config\<lparr>asyncFlush := True\<rparr>" True 4000000]
  by (auto simp: sync_config_def)

subsection \<open>Submission after shutdown\<close>

text \<open>
  Claim C2 says that \<^verbatim>\<open>log\<close> after \<^verbatim>\<open>shutdown\<close> changes nothing. \<^verbatim>\<open>log\<close> never reads
  \<^verbatim>\<open>m_shutdown\<close>: on a logger that was constructed and shut down, \<open>log INFO "After shutdown"\<close>
  appends the record to the primary buffer and sets \<open>totalLogged\<close> to 1; with
  \<open>bufferSize = 1\<close> in synchronous mode the record is drained at once and its line is written to
  the console.
\<close>

theorem log_after_shutdown_is_not_a_noop:
  "m_shutdown (shutdown example_platform 0 (BufferedLogger_init sync_config True))
   \<and> m_primaryBuffer (shutdown example_platform 0 (BufferedLogger_init sync_config True)) = []
   \<and> totalLogged (m_stats (shutdown example_platform 0 (BufferedLogger_init sync_config True))) = 0
   \<and> \<not> isl (log example_platform (at_ms 5) INFO ''After shutdown''
               (shutdown example_platform 0 (BufferedLogger_init sync_config True)))
   \<and> m_primaryBuffer (projr (log example_platform (at_ms 5) INFO ''After shutdown''
               (shutdown example_platform 0 (BufferedLogger_init sync_config True))))
       = [LogEntry_new 5000000 255 INFO ''After shutdown''
            (computeHash example_platform ''After shutdown'' INFO)]
   \<and> totalLogged (m_stats (projr (log example_platform (at_ms 5) INFO ''After shutdown''
               (shutdown example_platform 0 (BufferedLogger_init sync_config True))))) = 1
   \<and> console_sink (projr (log example_platform (at_ms 5) INFO ''After shutdown''
               (shutdown example_platform 0
                  (BufferedLogger_init (sync_config\<lparr>bufferSize := 1\<rparr>) True))))
       = [formatLogEntry example_platform
            (LogEntry_new 5000000 255 INFO ''After shutdown''
               (computeHash example_platform ''After shutdown'' INFO))]"
  by (simp add: run_defs sync_config_def at_ms_def example_platform_def duration_cast_ms_def
      write_entries_eq)

subsection \<open>The suppression rule\<close>

text \<open>
  Claim C3. The probe returns "deduplicate" if and only if the map has an entry for the
  fingerprint and the time since \<open>lastSeen\<close>, in the whole milliseconds that the code computes,
  is less than the window. When it does, exactly that entry changes: its count goes up by one
  and its \<open>lastSeen\<close> becomes \<open>now\<close>. Otherwise the probe returns "do not deduplicate",
  for every state whose cursor lies inside the ring (where it does not, the probe indexes the
  ring out of bounds). The whole-millisecond comparison is the
  comparison of the exact tick difference with the window whenever \<open>now\<close> is not before
  \<open>lastSeen\<close> or the window is positive.
\<close>

theorem shouldDeduplicate_suppress_rule:
  "((\<exists>s'. shouldDeduplicate pf h now s = Inr (True, s')) \<longleftrightarrow>
      (\<exists>it. m_dedupeMap s h = Some it \<and>
            duration_cast_ms pf (now - lastSeen it) < deduplicationTimeWindow (m_config s)))
   \<and> (\<forall>it. m_dedupeMap s h = Some it \<and>
            duration_cast_ms pf (now - lastSeen it) < deduplicationTimeWindow (m_config s) \<longrightarrow>
          shouldDeduplicate pf h now s =
            Inr (True, s\<lparr>m_dedupeMap :=
                          (m_dedupeMap s)(h \<mapsto> \<lparr>lastSeen = now, seen = seen it + 1\<rparr>)\<rparr>))
   \<and> (\<not> (\<exists>it. m_dedupeMap s h = Some it \<and>
            duration_cast_ms pf (now - lastSeen it) < deduplicationTimeWindow (m_config s)) \<and>
        m_dedupeWindowIndex s < length (m_dedupeWindow s) \<longrightarrow>
          (\<exists>s'. shouldDeduplicate pf h now s = Inr (False, s')))
   \<and> (\<not> (\<exists>it. m_dedupeMap s h = Some it \<and>
            duration_cast_ms pf (now - lastSeen it) < deduplicationTimeWindow (m_config s)) \<and>
        length (m_dedupeWindow s) \<le> m_dedupeWindowIndex s \<longrightarrow>
          shouldDeduplicate pf h now s = Inl OutOfBounds)
   \<and> (\<forall>it. m_dedupeMap s h = Some it \<and> 0 < ticks_per_ms pf \<and>
            (lastSeen it \<le> now \<or> 0 < deduplicationTimeWindow (m_config s)) \<longrightarrow>
          (duration_cast_ms pf (now - lastSeen it) < deduplicationTimeWindow (m_config s)
             \<longleftrightarrow> now - lastSeen it < deduplicationTimeWindow (m_config s) * ticks_per_ms pf))"
proof (intro conjI allI impI)
  show "(\<exists>s'. shouldDeduplicate pf h now s = Inr (True, s')) \<longleftrightarrow>
      (\<exists>it. m_dedupeMap s h = Some it \<and>
            duration_cast_ms pf (now - lastSeen it) < deduplicationTimeWindow (m_config s))"
    by (auto simp: shouldDeduplicate_def track_hash_not_True split: option.splits)
next
  fix it
  assume "m_dedupeMap s h = Some it \<and>
      duration_cast_ms pf (now - lastSeen it) < deduplicationTimeWindow (m_config s)"
  then show "shouldDeduplicate pf h now s =
      Inr (True, s\<lparr>m_dedupeMap := (m_dedupeMap s)(h \<mapsto> \<lparr>lastSeen = now, seen = seen it + 1\<rparr>)\<rparr>)"
    by (simp add: shouldDeduplicate_def)
next
  assume a: "\<not> (\<exists>it. m_dedupeMap s h = Some it \<and>
            duration_cast_ms pf (now - lastSeen it) < deduplicationTimeWindow (m_config s)) \<and>
        m_dedupeWindowIndex s < length (m_dedupeWindow s)"
  then have "shouldDeduplicate pf h now s = track_hash pf h now s"
    by (auto simp: shouldDeduplicate_def split: option.splits)
  with a show "\<exists>s'. shouldDeduplicate pf h now s = Inr (False, s')"
    using track_hash_ring_ok [of s pf h now] by (auto simp: ring_ok_def)
next
  assume a: "\<not> (\<exists>it. m_dedupeMap s h = Some it \<and>
            duration_cast_ms pf (now - lastSeen it) < deduplicationTimeWindow (m_config s)) \<and>
        length (m_dedupeWindow s) \<le> m_dedupeWindowIndex s"
  then have "shouldDeduplicate pf h now s = track_hash pf h now s"
    by (auto simp: shouldDeduplicate_def split: option.splits)
  with a show "shouldDeduplicate pf h now s = Inl OutOfBounds"
    by (simp add: track_hash_def Let_def)
next
  fix it
  assume "m_dedupeMap s h = Some it \<and> 0 < ticks_per_ms pf \<and>
      (lastSeen it \<le> now \<or> 0 < deduplicationTimeWindow (m_config s))"
  then show "duration_cast_ms pf (now - lastSeen it) < deduplicationTimeWindow (m_config s)
      \<longleftrightarrow> now - lastSeen it < deduplicationTimeWindow (m_config s) * ticks_per_ms pf"
    by (intro duration_cast_ms_less_iff) auto
qed

theorem shouldDeduplicate_suppress_rule_witness:
  "shouldDeduplicate example_platform 7 50000000 seen_cache =
     Inr (True, seen_cache\<lparr>m_dedupeMap :=
                   (m_dedupeMap seen_cache)(7 \<mapsto> \<lparr>lastSeen = 50000000, seen = 2\<rparr>)\<rparr>)
   \<and> (\<exists>s'. shouldDeduplicate example_platform 7 200000000 seen_cache = Inr (False, s'))
   \<and> (\<exists>s'. shouldDeduplicate example_platform 8 50000000 seen_cache = Inr (False, s'))"
  using shouldDeduplicate_suppress_rule [of example_platform 7 50000000 seen_cache]
    shouldDeduplicate_suppress_rule [of example_platform 7 200000000 seen_cache]
    shouldDeduplicate_suppress_rule [of example_platform 8 50000000 seen_cache]
  by (simp add: seen_cache_def BufferedLogger_init_def sync_config_def example_platform_def
      duration_cast_ms_def)

subsection \<open>Insertion and eviction\<close>

text \<open>
  Claim C4. When the probe returns "do not deduplicate", the cursor was inside the ring and the
  new state differs from the old one in the map, the ring and the cursor only: the entry of the
  probed fingerprint is written as \<open>(now, 1)\<close>; then, if the slot at the cursor holds a
  non-zero fingerprint that has an entry whose age is not below the window, that entry is
  erased, and an entry that is still within the window stays; the slot receives the probed
  fingerprint and the cursor advances by one modulo the length of the ring. With a positive
  window the entry of the probed fingerprint is \<open>(now, 1)\<close> afterwards.
\<close>

theorem shouldDeduplicate_pass_effect:
  assumes "shouldDeduplicate pf h now s = Inr (False, s')"
  shows "let i = m_dedupeWindowIndex s;
             oldHash = m_dedupeWindow s ! i;
             map1 = (m_dedupeMap s)(h \<mapsto> \<lparr>lastSeen = now, seen = 1\<rparr>)
         in i < length (m_dedupeWindow s)
          \<and> m_dedupeMap s' =
              (if oldHash \<noteq> 0 \<and>
                  (\<exists>oldIt. map1 oldHash = Some oldIt \<and>
                     deduplicationTimeWindow (m_config s)
                       \<le> duration_cast_ms pf (now - lastSeen oldIt))
               then map1(oldHash := None) else map1)
          \<and> m_dedupeWindow s' = (m_dedupeWindow s)[i := h]
          \<and> m_dedupeWindowIndex s' = (i + 1) mod length (m_dedupeWindow s)
          \<and> s' = s\<lparr>m_dedupeMap := m_dedupeMap s', m_dedupeWindow := m_dedupeWindow s',
                   m_dedupeWindowIndex := m_dedupeWindowIndex s'\<rparr>
          \<and> (0 < deduplicationTimeWindow (m_config s) \<longrightarrow>
                m_dedupeMap s' h = Some \<lparr>lastSeen = now, seen = 1\<rparr>)"
proof -
  from assms have t: "track_hash pf h now s = Inr (False, s')"
    by (auto simp: shouldDeduplicate_def split: option.splits if_splits)
  then have i: "m_dedupeWindowIndex s < length (m_dedupeWindow s)"
    by (auto simp: track_hash_def Let_def split: if_splits)
  from t i show ?thesis
    by (auto simp: track_hash_def Let_def split: option.splits if_splits)
qed

theorem shouldDeduplicate_pass_effect_witness:
  "shouldDeduplicate example_platform 7 200000000 stale_cache =
     Inr (False, stale_cache\<lparr>m_dedupeMap := [7 \<mapsto> \<lparr>lastSeen = 200000000, seen = 1\<rparr>],
                             m_dedupeWindow := [7, 0, 0, 0], m_dedupeWindowIndex := 1\<rparr>)
   \<and> shouldDeduplicate example_platform 7 50000000 stale_cache =
     Inr (False, stale_cache\<lparr>m_dedupeMap := [9 \<mapsto> \<lparr>lastSeen = 0, seen = 1\<rparr>,
                                              7 \<mapsto> \<lparr>lastSeen = 50000000, seen = 1\<rparr>],
                             m_dedupeWindow := [7, 0, 0, 0], m_dedupeWindowIndex := 1\<rparr>)"
proof -
  have a: "shouldDeduplicate example_platform 7 200000000 stale_cache =
     Inr (False, snd (projr (shouldDeduplicate example_platform 7 200000000 stale_cache)))"
    by (simp add: shouldDeduplicate_def track_hash_def Let_def stale_cache_def
        BufferedLogger_init_def sync_config_def example_platform_def duration_cast_ms_def)
  have b: "shouldDeduplicate example_platform 7 50000000 stale_cache =
     Inr (False, snd (projr (shouldDeduplicate example_platform 7 50000000 stale_cache)))"
    by (simp add: shouldDeduplicate_def track_hash_def Let_def stale_cache_def
        BufferedLogger_init_def sync_config_def example_platform_def duration_cast_ms_def)
  from shouldDeduplicate_pass_effect [OF a] shouldDeduplicate_pass_effect [OF b]
  show ?thesis
    by (simp add: shouldDeduplicate_def track_hash_def Let_def stale_cache_def
        BufferedLogger_init_def sync_config_def example_platform_def duration_cast_ms_def)
qed

subsection \<open>The fingerprint\<close>




subsection \<open>The level filter\<close>

text \<open>
  Claim C6. A submission whose level is below the configured minimum returns at once with the
  state as it was: buffers, deduplication cache, counters and sinks are untouched. Whatever
  calls follow run as if the submission had never been made, so the record reaches no sink.
\<close>

theorem log_below_minimumLevel:
  assumes "level_value lvl < level_value (minimumLevel (m_config s))"
  shows "log pf cx lvl msg s = Inr s \<and> run pf (Log cx lvl msg # calls) s = run pf calls s"
  using assms by (simp add: log_def)

theorem log_below_minimumLevel_witness:
  "log example_platform (at_ms 0) TRACE ''frame begin'' (BufferedLogger_init sync_config True)
     = Inr (BufferedLogger_init sync_config True)
   \<and> run example_platform [Log (at_ms 0) TRACE ''frame begin'', Shutdown 1000000]
       (BufferedLogger_init sync_config True)
     = run example_platform [Shutdown 1000000] (BufferedLogger_init sync_config True)"
  using log_below_minimumLevel [of TRACE "BufferedLogger_init sync_config True"
      example_platform "at_ms 0" "''frame begin''" "[Shutdown 1000000]"]
  by (simp add: BufferedLogger_init_def sync_config_def)

subsection \<open>Draining an empty buffer\<close>

text \<open>
  Claim C7. When the active buffer is empty, \<^verbatim>\<open>performFlush\<close> returns the state unchanged:
  the buffers, the selector, the statistics (also \<open>totalFlushed\<close>, \<open>totalFlushes\<close> and
  \<open>lastFlushTime\<close>), the deduplication state, the flush request flag and the three sinks.
\<close>

theorem performFlush_empty_noop:
  assumes "currentBuffer s = []"
  shows "performFlush pf t s = s"
  using assms by (simp add: performFlush_def)

theorem performFlush_empty_noop_witness:
  "performFlush example_platform 1000000 (BufferedLogger_init sync_config True)
     = BufferedLogger_init sync_config True"
  using performFlush_empty_noop [of "BufferedLogger_init sync_config True" example_platform 1000000]
  by (simp add: BufferedLogger_init_def currentBuffer_def)

subsection \<open>The formatted line\<close>

text \<open>
  Claim C8. The line of a record is: the bracketed timestamp (the local time of the platform,
  a dot, the milliseconds padded with zeros to three characters), the bracketed level tag, which
  is the entry of \<open>levelStrings\<close> at the ordinal of the level and has five characters, the
  thread id in hexadecimal after \<open>T:\<close>, the message as it is, and the text
  \<open>(repeated N times)\<close> with the count in decimal exactly when the count exceeds 1.
\<close>

theorem formatLogEntry_shape:
  "formatLogEntry pf entry =
     ''['' @ put_time_local pf (timestamp entry) @ ''.'' @
     (let ms = trunc_rem (duration_cast_ms pf (timestamp entry)) 1000;
          digits = (if ms < 0 then CHR ''-'' # show_dec (nat (- ms)) else show_dec (nat ms))
      in replicate (3 - length digits) CHR ''0'' @ digits) @ ''] '' @
     ''['' @ levelStrings ! level_value (level entry) @ ''] '' @
     ''[T:'' @ show_hex (threadId entry) @ ''] '' @
     message entry @
     (if 1 < count entry
      then '' (repeated '' @ show_dec (unat (count entry)) @ '' times)'' else [])
   \<and> length (levelStrings ! level_value (level entry)) = 5
   \<and> levelStrings ! level_value (level entry) =
       (case level entry of TRACE \<Rightarrow> ''TRACE'' | DEBUG \<Rightarrow> ''DEBUG'' | INFO \<Rightarrow> ''INFO ''
        | WARNING \<Rightarrow> ''WARN '' | ERROR \<Rightarrow> ''ERROR'' | CRITICAL \<Rightarrow> ''CRIT '')"
proof -
  have "length (levelStrings ! level_value (level entry)) = 5"
    unfolding levelStrings_nth by (cases "level entry") simp_all
  with formatLogEntry_text [of pf entry] levelStrings_nth [of "level entry"]
  show ?thesis by blast
qed

theorem formatLogEntry_shape_witness:
  "formatLogEntry example_platform
     \<lparr>timestamp = 1234567890, level = WARNING, message = ''hello'', threadId = 255,
      hash = 0, count = 3\<rparr> = ''[2024-01-01 00:00:00.234] [WARN ] [T:ff] hello (repeated 3 times)''
   \<and> formatLogEntry example_platform
     \<lparr>timestamp = 1234567890, level = WARNING, message = ''hello'', threadId = 255,
      hash = 0, count = 1\<rparr> = ''[2024-01-01 00:00:00.234] [WARN ] [T:ff] hello''"
  using formatLogEntry_shape [of example_platform
      "\<lparr>timestamp = 1234567890, level = WARNING, message = ''hello'', threadId = 255,
        hash = 0, count = 3\<rparr>"]
    formatLogEntry_shape [of example_platform
      "\<lparr>timestamp = 1234567890, level = WARNING, message = ''hello'', threadId = 255,
        hash = 0, count = 1\<rparr>"]
  by (simp add: example_platform_def levelStrings_def duration_cast_ms_def trunc_rem_def
      show_dec.simps show_hex.simps digit_char_def)

subsection \<open>The ring after enabling deduplication\<close>

text \<open>
  Claim C9 says that the ring is non-empty whenever deduplication is enabled. The constructor
  sizes the ring only if the configuration enables deduplication, and
  \<^verbatim>\<open>enableDeduplication(true)\<close> does not size it: after construction with deduplication
  disabled and a call of \<^verbatim>\<open>enableDeduplication(true)\<close>, deduplication is enabled, the ring is
  empty, and the next submission indexes it at 0, outside the vector. The same happens after
  construction with deduplication enabled and \<open>deduplicationWindowSize = 0\<close>.
\<close>

theorem enableDeduplication_empty_ring:
  "enableDeduplication (m_config (enableDeduplication_call True
       (BufferedLogger_init (sync_config\<lparr>enableDeduplication := False\<rparr>) True)))
   \<and> m_dedupeWindow (enableDeduplication_call True
       (BufferedLogger_init (sync_config\<lparr>enableDeduplication := False\<rparr>) True)) = []
   \<and> log example_platform (at_ms 0) INFO ''frame begin'' (enableDeduplication_call True
       (BufferedLogger_init (sync_config\<lparr>enableDeduplication := False\<rparr>) True))
       = Inl OutOfBounds
   \<and> log example_platform (at_ms 0) INFO ''frame begin''
       (BufferedLogger_init (sync_config\<lparr>deduplicationWindowSize := 0\<rparr>) True)
       = Inl OutOfBounds"
  by (simp add: log_def shouldDeduplicate_def track_hash_def Let_def enableDeduplication_call_def
      BufferedLogger_init_def sync_config_def)

subsection \<open>Occurrence counts\<close>

text \<open>
  Claim C10. After every sequence of calls on a freshly constructed logger, every record in
  either buffer, every record handed to the callback and every record that has been drained
  has \<open>count = 1\<close>. The sinks hold exactly the lines of the drained records, in the order of
  draining: the console one line for each drained record if it is enabled, the file one line
  for each record drained until it was closed; \<open>totalFlushed\<close> counts the drained records.
  The line of each drained record ends with the message of that record: no repetition suffix
  follows it.
\<close>

theorem buffered_records_count_one:
  assumes "run pf calls (BufferedLogger_init config file_opens) = Inr s"
  shows "(\<forall>e \<in> set (m_primaryBuffer s) \<union> set (m_secondaryBuffer s). count e = 1)
       \<and> (\<forall>batch \<in> set (callback_sink s). \<forall>e \<in> set batch. count e = 1)
       \<and> (\<forall>e \<in> set (drained s).
            count e = 1 \<and>
            formatLogEntry pf e =
              ''['' @ put_time_local pf (timestamp e) @ ''.'' @
              (let ms = trunc_rem (duration_cast_ms pf (timestamp e)) 1000;
                   digits = (if ms < 0 then CHR ''-'' # show_dec (nat (- ms))
                             else show_dec (nat ms))
               in replicate (3 - length digits) CHR ''0'' @ digits) @ ''] '' @
              ''['' @ levelStrings ! level_value (level e) @ ''] '' @
              ''[T:'' @ show_hex (threadId e) @ ''] '' @ message e)
       \<and> console_sink s =
           (if consoleOutput config then map (formatLogEntry pf) (drained s) else [])
       \<and> (\<exists>k \<le> length (drained s). file_sink s = map (formatLogEntry pf) (take k (drained s)))
       \<and> (m_fileStream s \<longrightarrow> file_sink s = map (formatLogEntry pf) (drained s))
       \<and> totalFlushed (m_stats s) = of_nat (length (drained s))"
proof -
  from single_counts_run [OF single_counts_init assms]
  have sc: "single_counts s" .
  from sinks_follow_run [OF sinks_follow_init assms]
  have sf: "sinks_follow pf s" .
  from consoleOutput_run [OF assms]
  have co: "consoleOutput (m_config s) = consoleOutput config"
    by (simp add: BufferedLogger_init_def)
  have "\<forall>e \<in> set (drained s).
            count e = 1 \<and>
            formatLogEntry pf e =
              ''['' @ put_time_local pf (timestamp e) @ ''.'' @
              (let ms = trunc_rem (duration_cast_ms pf (timestamp e)) 1000;
                   digits = (if ms < 0 then CHR ''-'' # show_dec (nat (- ms))
                             else show_dec (nat ms))
               in replicate (3 - length digits) CHR ''0'' @ digits) @ ''] '' @
              ''['' @ levelStrings ! level_value (level e) @ ''] '' @
              ''[T:'' @ show_hex (threadId e) @ ''] '' @ message e"
  proof
    fix e
    assume "e \<in> set (drained s)"
    with sc have c1: "count e = 1" unfolding single_counts_def by blast
    then have "\<not> 1 < count e" by simp
    with formatLogEntry_text [of pf e] c1
    show "count e = 1 \<and>
            formatLogEntry pf e =
              ''['' @ put_time_local pf (timestamp e) @ ''.'' @
              (let ms = trunc_rem (duration_cast_ms pf (timestamp e)) 1000;
                   digits = (if ms < 0 then CHR ''-'' # show_dec (nat (- ms))
                             else show_dec (nat ms))
               in replicate (3 - length digits) CHR ''0'' @ digits) @ ''] '' @
              ''['' @ levelStrings ! level_value (level e) @ ''] '' @
              ''[T:'' @ show_hex (threadId e) @ ''] '' @ message e"
      by (simp del: replicate.simps append.simps)
  qed
  moreover from sf co have "console_sink s =
      (if consoleOutput config then map (formatLogEntry pf) (drained s) else [])"
    by (simp add: sinks_follow_def)
  moreover from sf
  have "\<exists>k \<le> length (drained s). file_sink s = map (formatLogEntry pf) (take k (drained s))"
    and "m_fileStream s \<longrightarrow> file_sink s = map (formatLogEntry pf) (drained s)"
    and "totalFlushed (m_stats s) = of_nat (length (drained s))"
    unfolding sinks_follow_def by blast+
  ultimately show ?thesis using sc unfolding single_counts_def by blast
qed

theorem buffered_records_count_one_witness:
  "drained (projr (run example_platform
       [Log (at_ms 0) INFO ''dup'', Log (at_ms 1) INFO ''dup'', ForceFlush 2000000,
        Log (at_ms 3) ERROR ''failed'']
       (BufferedLogger_init sync_config True)))
     = [LogEntry_new 0 255 INFO ''dup'' (computeHash example_platform ''dup'' INFO)]
   \<and> console_sink (projr (run example_platform
       [Log (at_ms 0) INFO ''dup'', Log (at_ms 1) INFO ''dup'', ForceFlush 2000000,
        Log (at_ms 3) ERROR ''failed'']
       (BufferedLogger_init sync_config True)))
     = [''[2024-01-01 00:00:00.000] [INFO ] [T:ff] dup'']
   \<and> file_sink (projr (run example_platform
       [Log (at_ms 0) INFO ''dup'', Log (at_ms 1) INFO ''dup'', ForceFlush 2000000,
        Log (at_ms 3) ERROR ''failed'']
       (BufferedLogger_init sync_config True)))
     = [''[2024-01-01 00:00:00.000] [INFO ] [T:ff] dup'']
   \<and> map count (m_secondaryBuffer (projr (run example_platform
       [Log (at_ms 0) INFO ''dup'', Log (at_ms 1) INFO ''dup'', ForceFlush 2000000,
        Log (at_ms 3) ERROR ''failed'']
       (BufferedLogger_init sync_config True)))) = [1]"
proof -
  have r: "run example_platform
       [Log (at_ms 0) INFO ''dup'', Log (at_ms 1) INFO ''dup'', ForceFlush 2000000,
        Log (at_ms 3) ERROR ''failed'']
       (BufferedLogger_init sync_config True)
     = Inr (projr (run example_platform
       [Log (at_ms 0) INFO ''dup'', Log (at_ms 1) INFO ''dup'', ForceFlush 2000000,
        Log (at_ms 3) ERROR ''failed'']
       (BufferedLogger_init sync_config True)))"
    by (simp add: run_defs sync_config_def at_ms_def example_platform_def duration_cast_ms_def
        write_entries_eq computeHash_def char_to_uint32_def)
  have d: "drained (projr (run example_platform
       [Log (at_ms 0) INFO ''dup'', Log (at_ms 1) INFO ''dup'', ForceFlush 2000000,
        Log (at_ms 3) ERROR ''failed'']
       (BufferedLogger_init sync_config True)))
     = [LogEntry_new 0 255 INFO ''dup'' (computeHash example_platform ''dup'' INFO)]"
    by (simp add: run_defs sync_config_def at_ms_def example_platform_def duration_cast_ms_def
        write_entries_eq computeHash_def char_to_uint32_def)
  have f: "m_fileStream (projr (run example_platform
       [Log (at_ms 0) INFO ''dup'', Log (at_ms 1) INFO ''dup'', ForceFlush 2000000,
        Log (at_ms 3) ERROR ''failed'']
       (BufferedLogger_init sync_config True)))"
    by (simp add: run_defs sync_config_def at_ms_def example_platform_def duration_cast_ms_def
        write_entries_eq computeHash_def char_to_uint32_def)
  have l: "length (m_secondaryBuffer (projr (run example_platform
       [Log (at_ms 0) INFO ''dup'', Log (at_ms 1) INFO ''dup'', ForceFlush 2000000,
        Log (at_ms 3) ERROR ''failed'']
       (BufferedLogger_init sync_config True)))) = 1"
    by (simp add: run_defs sync_config_def at_ms_def example_platform_def duration_cast_ms_def
        write_entries_eq computeHash_def char_to_uint32_def)
  have t: "formatLogEntry example_platform
       (LogEntry_new 0 255 INFO ''dup'' (computeHash example_platform ''dup'' INFO))
     = ''[2024-01-01 00:00:00.000] [INFO ] [T:ff] dup''"
    by (simp add: formatLogEntry_text LogEntry_new_def example_platform_def levelStrings_def
        duration_cast_ms_def trunc_rem_def show_dec.simps show_hex.simps digit_char_def
        numeral_2_eq_2)
  note c10 = buffered_records_count_one [OF r]
  from c10 have "\<forall>n \<in> set (map count (m_secondaryBuffer (projr (run example_platform
       [Log (at_ms 0) INFO ''dup'', Log (at_ms 1) INFO ''dup'', ForceFlush 2000000,
        Log (at_ms 3) ERROR ''failed'']
       (BufferedLogger_init sync_config True))))). n = 1"
    by auto
  from replicate_length_same [OF this] l
  have b: "map count (m_secondaryBuffer (projr (run example_platform
       [Log (at_ms 0) INFO ''dup'', Log (at_ms 1) INFO ''dup'', ForceFlush 2000000,
        Log (at_ms 3) ERROR ''failed'']
       (BufferedLogger_init sync_config True)))) = [1]"
    by simp
  from c10 have "console_sink (projr (run example_platform
       [Log (at_ms 0) INFO ''dup'', Log (at_ms 1) INFO ''dup'', ForceFlush 2000000,
        Log (at_ms 3) ERROR ''failed'']
       (BufferedLogger_init sync_config True)))
     = map (formatLogEntry example_platform) (drained (projr (run example_platform
       [Log (at_ms 0) INFO ''dup'', Log (at_ms 1) INFO ''dup'', ForceFlush 2000000,
        Log (at_ms 3) ERROR ''failed'']
       (BufferedLogger_init sync_config True))))"
    by (simp add: sync_config_def)
  moreover from c10 f have "file_sink (projr (run example_platform
       [Log (at_ms 0) INFO ''dup'', Log (at_ms 1) INFO ''dup'', ForceFlush 2000000,
        Log (at_ms 3) ERROR ''failed'']
       (BufferedLogger_init sync_config True)))
     = map (formatLogEntry example_platform) (drained (projr (run example_platform
       [Log (at_ms 0) INFO ''dup'', Log (at_ms 1) INFO ''dup'', ForceFlush 2000000,
        Log (at_ms 3) ERROR ''failed'']
       (BufferedLogger_init sync_config True))))"
    by blast
  ultimately show ?thesis using d t b by simp
qed

end
